theory Spec2Isabelle
  imports Complex_Main "HOL-Library.Log_Nat"
begin

section \<open>Numbers\<close>

text \<open>
  The program is JavaScript; every number in it is an IEEE-754 double. Two models of
  these numbers are used.

  \<^item> The flight physics (\<open>rk4Step\<close>, \<open>rocketODEs\<close>, \<open>runSimulation\<close>) is modelled over
    \<open>real\<close>: \<open>Math.sqrt\<close> is \<open>sqrt\<close>, \<open>Math.pow x y\<close> is \<open>x powr y\<close> (they agree for
    \<open>x > 0\<close>, the only case the run reaches), \<open>Math.abs\<close> is \<open>abs\<close>, \<open>Math.floor\<close> is
    \<open>floor\<close>, \<open>Math.max\<close> is \<open>max\<close>, \<open>Math.PI\<close> is \<open>pi\<close>. Rounding, NaN and the
    infinities are left out; a division by zero is 0 here and an infinity or NaN there.
  \<^item> The sweep variable of \<open>findOptimal\<close> is only ever set from a literal, increased by
    a literal and compared with a literal. These three operations are modelled exactly:
    a double is the rational number it denotes, a literal is rounded to the nearest
    double and \<open>+\<close> rounds the exact sum to the nearest double (ties to even, 53-bit
    significand). Overflow and subnormal numbers are not modelled; the sweep stays
    between 0.05 and 1.
\<close>

definition rne :: "rat \<Rightarrow> int" where
  \<comment> \<open>round to the nearest integer, ties to the even one\<close>
  "rne x = (let n = \<lfloor>x\<rfloor>; d = x - of_int n in
     if d < 1 / 2 then n else if 1 / 2 < d then n + 1 else if even n then n else n + 1)"

definition binexp :: "rat \<Rightarrow> int" where
  \<comment> \<open>the binary exponent \<open>\<lfloor>log\<^sub>2 x\<rfloor>\<close> of a positive rational\<close>
  "binexp x = (let (p, q) = quotient_of x; k = bitlen p - bitlen q in
     if 2 powi k \<le> x then k else k - 1)"

definition round_double :: "rat \<Rightarrow> rat" where
  \<comment> \<open>the double nearest to \<open>x\<close>: 53 significant bits, round to nearest, ties to even\<close>
  "round_double x = (if x = 0 then 0 else
     let e = binexp \<bar>x\<bar> - 52 in of_int (rne (x / 2 powi e)) * 2 powi e)"

definition fadd :: "rat \<Rightarrow> rat \<Rightarrow> rat" where
  \<comment> \<open>the \<open>+\<close> of two doubles\<close>
  "fadd x y = round_double (x + y)"

section \<open>Physical constants\<close>

record constants =
  g :: real
  rho_air :: real
  rho_water :: real
  P_atm :: real
  gamma :: real
  tank_volume :: real
  d_bottle :: real
  d_nozzle :: real
  mass_empty :: real

definition CONSTANTS :: constants where
  "CONSTANTS = \<lparr> g = 9.81, rho_air = 1.225, rho_water = 1000, P_atm = 101325,
     gamma = 1.4, tank_volume = 8 / 10000, d_bottle = 0.075, d_nozzle = 0.026,
     mass_empty = 0.0765 \<rparr>"

definition A_bottle :: real where
  "A_bottle = pi * (d_bottle CONSTANTS / 2) ^ 2"

definition A_nozzle :: real where
  "A_nozzle = pi * (d_nozzle CONSTANTS / 2) ^ 2"

section \<open>The integrator\<close>

text \<open>
  \<open>y.map((yi, i) => yi + c * k[i])\<close> walks the indices of \<open>y\<close> and reads \<open>k\<close> at each.
  A read past the end of \<open>k\<close> is \<open>undefined\<close> in JavaScript and makes the entry NaN; the
  model has no NaN, and every statement below is about derivative vectors that are as
  long as the state vector (\<open>rocketODEs\<close> always returns four entries for the four of
  the flight state).
\<close>

definition rk4Step ::
  "(real \<Rightarrow> real list \<Rightarrow> 'p \<Rightarrow> real list) \<Rightarrow> real \<Rightarrow> real list \<Rightarrow> real \<Rightarrow> 'p \<Rightarrow> real list" where
  "rk4Step odes t y dt params =
    (let k1 = odes t y params;
         k2 = odes (t + dt / 2) (map (\<lambda>i. y ! i + dt / 2 * k1 ! i) [0..<length y]) params;
         k3 = odes (t + dt / 2) (map (\<lambda>i. y ! i + dt / 2 * k2 ! i) [0..<length y]) params;
         k4 = odes (t + dt) (map (\<lambda>i. y ! i + dt * k3 ! i) [0..<length y]) params
     in map (\<lambda>i. y ! i + dt / 6 * (k1 ! i + 2 * k2 ! i + 2 * k3 ! i + k4 ! i))
          [0..<length y])"

text \<open>
  The method as the specification writes it, with element-wise vector operations:
  \<open>y' = y + dt/6 \<cdot> (k1 + 2 k2 + 2 k3 + k4)\<close>.
\<close>

definition vadd :: "real list \<Rightarrow> real list \<Rightarrow> real list" where
  "vadd xs ys = map2 (+) xs ys"

definition smul :: "real \<Rightarrow> real list \<Rightarrow> real list" where
  "smul c xs = map ((*) c) xs"

definition rk4_k1 :: "(real \<Rightarrow> real list \<Rightarrow> 'p \<Rightarrow> real list) \<Rightarrow> real \<Rightarrow> real list \<Rightarrow> real \<Rightarrow> 'p \<Rightarrow> real list" where
  "rk4_k1 f t y dt params = f t y params"

definition rk4_k2 :: "(real \<Rightarrow> real list \<Rightarrow> 'p \<Rightarrow> real list) \<Rightarrow> real \<Rightarrow> real list \<Rightarrow> real \<Rightarrow> 'p \<Rightarrow> real list" where
  "rk4_k2 f t y dt params = f (t + dt / 2) (vadd y (smul (dt / 2) (rk4_k1 f t y dt params))) params"

definition rk4_k3 :: "(real \<Rightarrow> real list \<Rightarrow> 'p \<Rightarrow> real list) \<Rightarrow> real \<Rightarrow> real list \<Rightarrow> real \<Rightarrow> 'p \<Rightarrow> real list" where
  "rk4_k3 f t y dt params = f (t + dt / 2) (vadd y (smul (dt / 2) (rk4_k2 f t y dt params))) params"

definition rk4_k4 :: "(real \<Rightarrow> real list \<Rightarrow> 'p \<Rightarrow> real list) \<Rightarrow> real \<Rightarrow> real list \<Rightarrow> real \<Rightarrow> 'p \<Rightarrow> real list" where
  "rk4_k4 f t y dt params = f (t + dt) (vadd y (smul dt (rk4_k3 f t y dt params))) params"

definition rk4_spec :: "(real \<Rightarrow> real list \<Rightarrow> 'p \<Rightarrow> real list) \<Rightarrow> real \<Rightarrow> real list \<Rightarrow> real \<Rightarrow> 'p \<Rightarrow> real list" where
  "rk4_spec f t y dt params =
     vadd y (smul (dt / 6)
       (vadd (vadd (vadd (rk4_k1 f t y dt params) (smul 2 (rk4_k2 f t y dt params)))
          (smul 2 (rk4_k3 f t y dt params))) (rk4_k4 f t y dt params)))"

section \<open>The flight model\<close>

record params =
  V_air_0 :: real
  C_d :: real
  P_0_abs :: real

text \<open>The state vector is \<open>[v, h, m, V_water]\<close>.\<close>

definition rocketODEs :: "real \<Rightarrow> real list \<Rightarrow> params \<Rightarrow> real list" where
  "rocketODEs t y params =
    (let v = y ! 0; h = y ! 1; m = y ! 2; V_water = y ! 3;
         drag_accel = - 0.5 * rho_air CONSTANTS * C_d params * A_bottle * v * \<bar>v\<bar> / m
     in if V_water \<le> 0 then [- g CONSTANTS + drag_accel, v, 0, 0]
        else
          let V_air = tank_volume CONSTANTS - V_water;
              P_1 = P_0_abs params * (V_air_0 params / V_air) powr gamma CONSTANTS;
              delta_P = P_1 - P_atm CONSTANTS
          in if delta_P \<le> 0 then [- g CONSTANTS + drag_accel, v, 0, 0]
             else
               let denom = rho_water CONSTANTS
                             * (1 - (d_nozzle CONSTANTS / d_bottle CONSTANTS) powr 4);
                   v_e = sqrt (2 * delta_P / denom);
                   dV_water_dt = - A_nozzle * v_e;
                   dm_dt = rho_water CONSTANTS * dV_water_dt;
                   thrust_accel = (rho_water CONSTANTS * A_nozzle * v_e * v_e) / m;
                   dv_dt = thrust_accel - g CONSTANTS + drag_accel
               in [dv_dt, v, dm_dt, dV_water_dt])"

record sample =
  sample_t :: real
  sample_h :: real
  sample_v :: real

text \<open>
  What \<open>runSimulation\<close> returns, and the state of its loop: the returned fields
  together with the state vector \<open>y\<close> and the clock \<open>t\<close>.
\<close>

record result =
  trajectory :: "sample list"
  maxH :: real
  maxHTime :: real
  burnoutTime :: "real option"
  burnoutAlt :: "real option"
  burnoutVel :: "real option"

record state = result +
  sim_y :: "real list"
  sim_t :: real

definition sim_dt :: real where
  "sim_dt = 0.002"

definition sim_params :: "real \<Rightarrow> real \<Rightarrow> real \<Rightarrow> params" where
  "sim_params fillRatio Cd pressurePSI =
    (let V_water_0 = fillRatio * tank_volume CONSTANTS;
         V_air_0 = tank_volume CONSTANTS - V_water_0;
         P_0_abs = pressurePSI * 6894.76 + P_atm CONSTANTS
     in \<lparr> V_air_0 = V_air_0, C_d = Cd, P_0_abs = P_0_abs \<rparr>)"

definition initial_state :: "real \<Rightarrow> state" where
  "initial_state fillRatio =
    (let V_water_0 = fillRatio * tank_volume CONSTANTS;
         m_0 = mass_empty CONSTANTS + rho_water CONSTANTS * V_water_0
     in \<lparr> trajectory = [\<lparr> sample_t = 0, sample_h = 0, sample_v = 0 \<rparr>],
          maxH = 0, maxHTime = 0,
          burnoutTime = None, burnoutAlt = None, burnoutVel = None,
          sim_y = [0, 0, m_0, V_water_0], sim_t = 0 \<rparr>)"

text \<open>One pass through the body of the \<open>while\<close> loop.\<close>

definition loop_body :: "params \<Rightarrow> state \<Rightarrow> state" where
  "loop_body params s =
    (let y = rk4Step rocketODEs (sim_t s) (sim_y s) sim_dt params;
         t = sim_t s + sim_dt;
         s1 = s\<lparr> sim_y := y, sim_t := t \<rparr>;
         s2 = (if y ! 3 \<le> 0 \<and> burnoutTime s1 = None
               then s1\<lparr> burnoutTime := Some t, burnoutAlt := Some (y ! 1),
                        burnoutVel := Some (y ! 0) \<rparr>
               else s1);
         s3 = (if y ! 1 > maxH s2 then s2\<lparr> maxH := y ! 1, maxHTime := t \<rparr> else s2)
     in if \<lfloor>t * 200\<rfloor> > \<lfloor>(t - sim_dt) * 200\<rfloor>
        then s3\<lparr> trajectory := trajectory s3
                  @ [\<lparr> sample_t = t, sample_h = max 0 (y ! 1), sample_v = y ! 0 \<rparr>] \<rparr>
        else s3)"

definition running :: "state \<Rightarrow> bool" where
  \<comment> \<open>the test of the \<open>while\<close> loop\<close>
  "running s = (sim_t s < 15 \<and> sim_y s ! 1 \<ge> 0)"

function sim_loop :: "params \<Rightarrow> state \<Rightarrow> state" where
  "sim_loop params s = (if running s then sim_loop params (loop_body params s) else s)"
  by pat_completeness auto
termination
proof (relation "measure (\<lambda>(params, s). nat \<lceil>(15 - sim_t s) * 500\<rceil>)")
  show "wf (measure (\<lambda>(params, s). nat \<lceil>(15 - sim_t s) * 500\<rceil>))"
    by simp
next
  fix params :: params and s :: state
  assume r: "running s"
  have t: "sim_t (loop_body params s) = sim_t s + 1 / 500"
    by (simp add: loop_body_def Let_def sim_dt_def)
  have "(15 - sim_t (loop_body params s)) * 500 = (15 - sim_t s) * 500 - 1"
    unfolding t by (simp add: algebra_simps)
  then have c: "\<lceil>(15 - sim_t (loop_body params s)) * 500\<rceil> = \<lceil>(15 - sim_t s) * 500\<rceil> - 1"
    by (simp only: ceiling_diff_one)
  from r have "0 < (15 - sim_t s) * 500"
    by (simp add: running_def)
  then have "0 < \<lceil>(15 - sim_t s) * 500\<rceil>"
    by simp
  with c show "((params, loop_body params s), (params, s))
      \<in> measure (\<lambda>(params, s). nat \<lceil>(15 - sim_t s) * 500\<rceil>)"
    by simp
qed

definition run_loop :: "real \<Rightarrow> real \<Rightarrow> real \<Rightarrow> state" where
  \<comment> \<open>\<open>runSimulation\<close> up to the end of its loop\<close>
  "run_loop fillRatio Cd pressurePSI =
     sim_loop (sim_params fillRatio Cd pressurePSI) (initial_state fillRatio)"

definition runSimulation :: "real \<Rightarrow> real \<Rightarrow> real \<Rightarrow> result" where
  "runSimulation fillRatio Cd pressurePSI =
     result.truncate (run_loop fillRatio Cd pressurePSI)"

text \<open>
  The states a run goes through: \<open>state_at \<dots> n\<close> is the loop state after \<open>n\<close> passes
  through the body, and \<open>steps s\<close> counts the passes the loop makes from \<open>s\<close>.
\<close>

definition state_at :: "real \<Rightarrow> real \<Rightarrow> real \<Rightarrow> nat \<Rightarrow> state" where
  "state_at fillRatio Cd pressurePSI n =
     (loop_body (sim_params fillRatio Cd pressurePSI) ^^ n) (initial_state fillRatio)"

function steps :: "params \<Rightarrow> state \<Rightarrow> nat" where
  "steps params s = (if running s then Suc (steps params (loop_body params s)) else 0)"
  by pat_completeness auto
termination
proof (relation "measure (\<lambda>(params, s). nat \<lceil>(15 - sim_t s) * 500\<rceil>)")
  show "wf (measure (\<lambda>(params, s). nat \<lceil>(15 - sim_t s) * 500\<rceil>))"
    by simp
next
  fix params :: params and s :: state
  assume r: "running s"
  have t: "sim_t (loop_body params s) = sim_t s + 1 / 500"
    by (simp add: loop_body_def Let_def sim_dt_def)
  have "(15 - sim_t (loop_body params s)) * 500 = (15 - sim_t s) * 500 - 1"
    unfolding t by (simp add: algebra_simps)
  then have c: "\<lceil>(15 - sim_t (loop_body params s)) * 500\<rceil> = \<lceil>(15 - sim_t s) * 500\<rceil> - 1"
    by (simp only: ceiling_diff_one)
  from r have "0 < (15 - sim_t s) * 500"
    by (simp add: running_def)
  then have "0 < \<lceil>(15 - sim_t s) * 500\<rceil>"
    by simp
  with c show "((params, loop_body params s), (params, s))
      \<in> measure (\<lambda>(params, s). nat \<lceil>(15 - sim_t s) * 500\<rceil>)"
    by simp
qed

definition run_steps :: "real \<Rightarrow> real \<Rightarrow> real \<Rightarrow> nat" where
  "run_steps fillRatio Cd pressurePSI =
     steps (sim_params fillRatio Cd pressurePSI) (initial_state fillRatio)"

abbreviation velocity :: "state \<Rightarrow> real" where
  "velocity s \<equiv> sim_y s ! 0"

abbreviation altitude :: "state \<Rightarrow> real" where
  "altitude s \<equiv> sim_y s ! 1"


abbreviation waterVolume :: "state \<Rightarrow> real" where
  "waterVolume s \<equiv> sim_y s ! 3"

text \<open>
  The rate of change of the water volume that \<open>rocketODEs\<close> returns depends on the
  water volume alone (and on the parameters): \<open>water_rate params w\<close> is that rate at
  the water volume \<open>w\<close>.
\<close>

definition water_rate :: "params \<Rightarrow> real \<Rightarrow> real" where
  "water_rate params w = rocketODEs 0 [0, 0, 1, w] params ! 3"

section \<open>The optimizer\<close>

definition js_number :: "rat \<Rightarrow> rat" where
  \<comment> \<open>the double a decimal literal denotes\<close>
  "js_number q = round_double q"

record opt_result =
  bestRatio :: rat
  bestH :: real
  data :: "(rat \<times> real) list"

text \<open>
  One pass through the body of the \<open>for\<close> loop of \<open>findOptimal\<close>, at the value
  \<open>r\<close> of the sweep variable. An entry of \<open>data\<close> is the pair \<open>(ratio, maxH)\<close>.
\<close>

definition record_point :: "real \<Rightarrow> real \<Rightarrow> opt_result \<Rightarrow> rat \<Rightarrow> opt_result" where
  "record_point Cd pressurePSI s r =
    (let maxH' = maxH (runSimulation (of_rat r) Cd pressurePSI);
         s1 = s\<lparr> data := data s @ [(r, maxH')] \<rparr>
     in if maxH' > bestH s1 then s1\<lparr> bestH := maxH', bestRatio := r \<rparr> else s1)"

text \<open>
  The loop itself, from the value \<open>r\<close> on. It is not known to end for every \<open>r\<close> (a
  double far below zero is not changed by adding 0.02), so it returns an option and
  \<open>None\<close> stands for a loop that never ends.
\<close>

partial_function (option) findOptimal_loop ::
  "real \<Rightarrow> real \<Rightarrow> rat \<Rightarrow> opt_result \<Rightarrow> opt_result option" where
  "findOptimal_loop Cd pressurePSI r s =
    (if r \<le> js_number (95 / 100)
     then findOptimal_loop Cd pressurePSI (fadd r (js_number (2 / 100)))
            (record_point Cd pressurePSI s r)
     else Some s)"

text \<open>
  \<open>sweep_points r rs\<close>: from \<open>r\<close> on, the sweep variable takes the values \<open>rs\<close>, one per
  pass, and then fails the test of the loop.
\<close>

fun sweep_points :: "rat \<Rightarrow> rat list \<Rightarrow> bool" where
  "sweep_points r [] = (\<not> r \<le> js_number (95 / 100))"
| "sweep_points r (x # xs) =
     (x = r \<and> r \<le> js_number (95 / 100) \<and> sweep_points (fadd r (js_number (2 / 100))) xs)"

definition findOptimal :: "real \<Rightarrow> real \<Rightarrow> opt_result option" where
  "findOptimal Cd pressurePSI =
     findOptimal_loop Cd pressurePSI (js_number (5 / 100))
       \<lparr> bestRatio = js_number (33 / 100), bestH = 0, data = [] \<rparr>"

text \<open>
  What the loop of \<open>findOptimal\<close> keeps true of its result: \<open>bestH\<close> is not negative and
  no recorded \<open>maxH\<close> lies above it; while it is 0 the ratio is the initial 0.33; once
  it is positive, \<open>bestRatio\<close> and \<open>bestH\<close> are those of the first sample that reaches
  \<open>bestH\<close>.
\<close>

definition tracks_best :: "opt_result \<Rightarrow> bool" where
  "tracks_best s =
    (0 \<le> bestH s
     \<and> (\<forall>x \<in> set (data s). snd x \<le> bestH s)
     \<and> (bestH s = 0 \<longrightarrow> bestRatio s = js_number (33 / 100))
     \<and> (0 < bestH s \<longrightarrow>
          (\<exists>i < length (data s). bestRatio s = fst (data s ! i) \<and> snd (data s ! i) = bestH s
             \<and> (\<forall>j < i. snd (data s ! j) < bestH s))))"

text \<open>
  The values the sweep variable takes, as the rational numbers these doubles denote:
  0.05, 0.07, 0.09000000000000001, 0.11000000000000001, \<dots>, 0.9100000000000005,
  0.9300000000000005 (\<open>sweep_points_from_start\<close> below checks them against the loop).
\<close>

definition swept_ratios :: "rat list" where
  "swept_ratios =
    [3602879701896397 / 72057594037927936, 1261007895663739 / 18014398509481984,
     6485183463413515 / 72057594037927936, 3963167672086037 / 36028797018963968,
     1170935903116329 / 9007199254740992, 5404319552844595 / 36028797018963968,
     3062447746611937 / 18014398509481984, 6845471433603153 / 36028797018963968,
     236438980436951 / 1125899906842624, 8286623314361711 / 36028797018963968,
     4503599627370495 / 18014398509481984, 4863887597560135 / 18014398509481984,
     5224175567749775 / 18014398509481984, 5584463537939415 / 18014398509481984,
     5944751508129055 / 18014398509481984, 6305039478318695 / 18014398509481984,
     6665327448508335 / 18014398509481984, 7025615418697975 / 18014398509481984,
     7385903388887615 / 18014398509481984, 7746191359077255 / 18014398509481984,
     8106479329266895 / 18014398509481984, 8466767299456535 / 18014398509481984,
     8827055269646175 / 18014398509481984, 4593671619917907 / 9007199254740992,
     4773815605012727 / 9007199254740992, 4953959590107547 / 9007199254740992,
     5134103575202367 / 9007199254740992, 5314247560297187 / 9007199254740992,
     5494391545392007 / 9007199254740992, 5674535530486827 / 9007199254740992,
     5854679515581647 / 9007199254740992, 6034823500676467 / 9007199254740992,
     6214967485771287 / 9007199254740992, 6395111470866107 / 9007199254740992,
     6575255455960927 / 9007199254740992, 6755399441055747 / 9007199254740992,
     6935543426150567 / 9007199254740992, 7115687411245387 / 9007199254740992,
     7295831396340207 / 9007199254740992, 7475975381435027 / 9007199254740992,
     7656119366529847 / 9007199254740992, 7836263351624667 / 9007199254740992,
     8016407336719487 / 9007199254740992, 8196551321814307 / 9007199254740992,
     8376695306909127 / 9007199254740992]"

section \<open>The integrator is the classical Runge-Kutta method\<close>

lemma stage_vector:
  assumes "length k = length y"
  shows "map (\<lambda>i. y ! i + c * k ! i) [0..<length y] = vadd y (smul c k)"
  using assms by (intro nth_equalityI) (simp_all add: vadd_def smul_def)

lemma rk4Step_vector_form:
  assumes "length (rk4_k1 f t y dt ps) = length y"
    and "length (rk4_k2 f t y dt ps) = length y"
    and "length (rk4_k3 f t y dt ps) = length y"
    and "length (rk4_k4 f t y dt ps) = length y"
  shows "rk4Step f t y dt ps = rk4_spec f t y dt ps \<and> length (rk4Step f t y dt ps) = length y"
proof -
  let ?k1 = "rk4_k1 f t y dt ps" and ?k2 = "rk4_k2 f t y dt ps"
  let ?k3 = "rk4_k3 f t y dt ps" and ?k4 = "rk4_k4 f t y dt ps"
  have s1: "map (\<lambda>i. y ! i + dt / 2 * ?k1 ! i) [0..<length y] = vadd y (smul (dt / 2) ?k1)"
    using assms(1) by (rule stage_vector)
  have s2: "map (\<lambda>i. y ! i + dt / 2 * ?k2 ! i) [0..<length y] = vadd y (smul (dt / 2) ?k2)"
    using assms(2) by (rule stage_vector)
  have s3: "map (\<lambda>i. y ! i + dt * ?k3 ! i) [0..<length y] = vadd y (smul dt ?k3)"
    using assms(3) by (rule stage_vector)
  have unf: "rk4Step f t y dt ps =
      map (\<lambda>i. y ! i + dt / 6 * (?k1 ! i + 2 * ?k2 ! i + 2 * ?k3 ! i + ?k4 ! i)) [0..<length y]"
    unfolding rk4Step_def Let_def rk4_k4_def rk4_k3_def rk4_k2_def rk4_k1_def
    using s1 s2 s3 unfolding rk4_k4_def rk4_k3_def rk4_k2_def rk4_k1_def by simp
  have "map (\<lambda>i. y ! i + dt / 6 * (?k1 ! i + 2 * ?k2 ! i + 2 * ?k3 ! i + ?k4 ! i)) [0..<length y]
      = rk4_spec f t y dt ps"
    unfolding rk4_spec_def using assms
    by (intro nth_equalityI) (simp_all add: vadd_def smul_def)
  moreover have "length (rk4Step f t y dt ps) = length y"
    unfolding unf by simp
  ultimately show ?thesis using unf by simp
qed

text \<open>
  Claim C1. For every derivative function \<open>f\<close>, time, state vector of any length, step
  and parameter bundle, \<open>rk4Step\<close> returns \<open>y + dt/6 \<cdot> (k1 + 2 k2 + 2 k3 + k4)\<close> with
  \<open>k1 = f(t, y)\<close>, \<open>k2 = f(t + dt/2, y + dt/2 \<cdot> k1)\<close>, \<open>k3 = f(t + dt/2, y + dt/2 \<cdot> k2)\<close>,
  \<open>k4 = f(t + dt, y + dt \<cdot> k3)\<close>, element-wise, the parameter bundle handed to \<open>f\<close>
  as it is; the result has the length of \<open>y\<close>. The derivative vectors are as long as
  the state vector, as the contract of the integrator has it.
\<close>

theorem rk4Step_classical:
  assumes "length (rk4_k1 f t y dt ps) = length y"
    and "length (rk4_k2 f t y dt ps) = length y"
    and "length (rk4_k3 f t y dt ps) = length y"
    and "length (rk4_k4 f t y dt ps) = length y"
  shows "rk4Step f t y dt ps = rk4_spec f t y dt ps \<and> length (rk4Step f t y dt ps) = length y"
  using assms by (rule rk4Step_vector_form)

theorem rk4Step_classical_witness:
  "rk4Step (\<lambda>t y c. map (\<lambda>x. c * x + t) y) 0 [1, 2] 1 3 = [71 / 4, 273 / 8]"
  using rk4Step_classical [of "\<lambda>t y c. map (\<lambda>x. c * x + t) y" 0 "[1, 2]" 1 3]
  by (simp add: rk4_spec_def rk4_k1_def rk4_k2_def rk4_k3_def rk4_k4_def vadd_def smul_def)

section \<open>The run of a simulation\<close>

declare sim_loop.simps [simp del] steps.simps [simp del]

subsection \<open>One pass through the loop body\<close>

lemma sim_t_loop_body: "sim_t (loop_body ps s) = sim_t s + sim_dt"
  by (simp add: loop_body_def Let_def)

lemma sim_y_loop_body:
  "sim_y (loop_body ps s) = rk4Step rocketODEs (sim_t s) (sim_y s) sim_dt ps"
  by (simp add: loop_body_def Let_def)

lemma burnoutTime_loop_body:
  "burnoutTime (loop_body ps s) =
     (if waterVolume (loop_body ps s) \<le> 0 \<and> burnoutTime s = None
      then Some (sim_t (loop_body ps s)) else burnoutTime s)"
  by (simp add: loop_body_def Let_def)

lemma burnoutAlt_loop_body:
  "burnoutAlt (loop_body ps s) =
     (if waterVolume (loop_body ps s) \<le> 0 \<and> burnoutTime s = None
      then Some (altitude (loop_body ps s)) else burnoutAlt s)"
  by (simp add: loop_body_def Let_def)

lemma burnoutVel_loop_body:
  "burnoutVel (loop_body ps s) =
     (if waterVolume (loop_body ps s) \<le> 0 \<and> burnoutTime s = None
      then Some (velocity (loop_body ps s)) else burnoutVel s)"
  by (simp add: loop_body_def Let_def)

lemma maxH_loop_body:
  "maxH (loop_body ps s) = max (maxH s) (altitude (loop_body ps s))"
  by (simp add: loop_body_def Let_def max_def)

lemma trajectory_loop_body:
  "trajectory (loop_body ps s) =
     (if \<lfloor>sim_t (loop_body ps s) * 200\<rfloor> > \<lfloor>sim_t s * 200\<rfloor>
      then trajectory s @ [\<lparr> sample_t = sim_t (loop_body ps s),
                              sample_h = max 0 (altitude (loop_body ps s)),
                              sample_v = velocity (loop_body ps s) \<rparr>]
      else trajectory s)"
  by (simp add: loop_body_def Let_def)

subsection \<open>The loop as an iteration\<close>

lemma sim_loop_iterate: "sim_loop ps s = (loop_body ps ^^ steps ps s) s"
proof (induction ps s rule: sim_loop.induct)
  case (1 ps s)
  show ?case
  proof (cases "running s")
    case True
    then have "sim_loop ps s = sim_loop ps (loop_body ps s)"
      by (subst sim_loop.simps) simp
    also have "\<dots> = (loop_body ps ^^ steps ps (loop_body ps s)) (loop_body ps s)"
      using "1.IH" True by simp
    also have "\<dots> = (loop_body ps ^^ steps ps s) s"
      using True by (subst (2) steps.simps) (simp add: funpow_swap1)
    finally show ?thesis .
  next
    case False
    then show ?thesis
      by (subst sim_loop.simps, subst steps.simps) simp
  qed
qed



lemma sim_t_iterate: "sim_t ((loop_body ps ^^ n) s) = sim_t s + real n * sim_dt"
  by (induction n) (simp_all add: sim_t_loop_body algebra_simps)

lemma sim_t_state_at: "sim_t (state_at f Cd p n) = real n * sim_dt"
  by (simp add: state_at_def sim_t_iterate initial_state_def Let_def)

lemma state_at_Suc:
  "state_at f Cd p (Suc n) = loop_body (sim_params f Cd p) (state_at f Cd p n)"
  by (simp add: state_at_def)

lemma state_at_0: "state_at f Cd p 0 = initial_state f"
  by (simp add: state_at_def)

lemma run_loop_state_at: "run_loop f Cd p = state_at f Cd p (run_steps f Cd p)"
  by (simp add: run_loop_def state_at_def run_steps_def sim_loop_iterate)



lemma run_steps_pos: "0 < run_steps f Cd p"
proof -
  have "running (initial_state f)"
    by (simp add: running_def initial_state_def Let_def)
  then show ?thesis
    unfolding run_steps_def by (subst steps.simps) simp
qed


lemma truncate_fields:
  "trajectory (result.truncate s) = trajectory s"
  "maxH (result.truncate s) = maxH s"
  "maxHTime (result.truncate s) = maxHTime s"
  "burnoutTime (result.truncate s) = burnoutTime s"
  "burnoutAlt (result.truncate s) = burnoutAlt s"
  "burnoutVel (result.truncate s) = burnoutVel s"
  by (simp_all add: result.truncate_def)


subsection \<open>Mass and water in the derivative function\<close>

lemma length_rk4Step: "length (rk4Step f t y dt ps) = length y"
  by (simp add: rk4Step_def Let_def)

lemma nozzle_factor: "(d_nozzle CONSTANTS / d_bottle CONSTANTS) powr 4 = 456976 / 31640625"
proof -
  have "(26 / 75 :: real) powr 4 = (26 / 75) ^ 4"
    by (simp add: powr_numeral)
  then show ?thesis
    by (simp add: CONSTANTS_def power4_eq_xxxx)
qed

lemma A_nozzle_nonneg: "0 \<le> A_nozzle"
  by (simp add: A_nozzle_def)

lemma water_rate_eq: "rocketODEs t y ps ! 3 = water_rate ps (y ! 3)"
  by (simp add: water_rate_def rocketODEs_def Let_def)

lemma mass_rate_eq: "rocketODEs t y ps ! 2 = rho_water CONSTANTS * water_rate ps (y ! 3)"
  by (simp add: water_rate_def rocketODEs_def Let_def)

lemma water_rate_cases:
  "water_rate ps w =
    (if w \<le> 0 then 0
     else if P_0_abs ps * (V_air_0 ps / (tank_volume CONSTANTS - w)) powr gamma CONSTANTS
               - P_atm CONSTANTS \<le> 0 then 0
     else - A_nozzle * sqrt (2 * (P_0_abs ps
               * (V_air_0 ps / (tank_volume CONSTANTS - w)) powr gamma CONSTANTS
               - P_atm CONSTANTS)
             / (rho_water CONSTANTS * (1 - (d_nozzle CONSTANTS / d_bottle CONSTANTS) powr 4))))"
  by (simp add: water_rate_def rocketODEs_def Let_def)

lemma denom_pos:
  "0 < rho_water CONSTANTS * (1 - (d_nozzle CONSTANTS / d_bottle CONSTANTS) powr 4)"
  unfolding nozzle_factor by (simp add: CONSTANTS_def)

lemma water_rate_nonpos: "water_rate ps w \<le> 0"
proof -
  define dP where "dP = P_0_abs ps * (V_air_0 ps / (tank_volume CONSTANTS - w)) powr gamma CONSTANTS
               - P_atm CONSTANTS"
  define dn where "dn = rho_water CONSTANTS * (1 - (d_nozzle CONSTANTS / d_bottle CONSTANTS) powr 4)"
  have wr: "water_rate ps w = (if w \<le> 0 then 0 else if dP \<le> 0 then 0
      else - A_nozzle * sqrt (2 * dP / dn))"
    unfolding dP_def dn_def by (rule water_rate_cases)
  show ?thesis
  proof (cases "w \<le> 0 \<or> dP \<le> 0")
    case True
    then show ?thesis unfolding wr by auto
  next
    case False
    then have "0 < dP" by simp
    moreover have "0 < dn" unfolding dn_def by (rule denom_pos)
    ultimately have "0 \<le> 2 * dP / dn" by simp
    then have "0 \<le> A_nozzle * sqrt (2 * dP / dn)"
      using A_nozzle_nonneg by (intro mult_nonneg_nonneg) simp_all
    moreover from False have "water_rate ps w = - (A_nozzle * sqrt (2 * dP / dn))"
      unfolding wr by simp
    ultimately show ?thesis by simp
  qed
qed

lemma water_rate_exhausted: "w \<le> 0 \<Longrightarrow> water_rate ps w = 0"
  by (simp add: water_rate_def rocketODEs_def Let_def)


subsection \<open>Mass and water across one step of the integrator\<close>

lemma rk4Step_water:
  assumes "length y = 4"
  shows "rk4Step rocketODEs t y dt ps ! 3 =
    (let w = y ! 3; k1 = water_rate ps w; k2 = water_rate ps (w + dt / 2 * k1);
         k3 = water_rate ps (w + dt / 2 * k2); k4 = water_rate ps (w + dt * k3)
     in w + dt / 6 * (k1 + 2 * k2 + 2 * k3 + k4))"
  using assms by (simp add: rk4Step_def Let_def water_rate_eq)

lemma rk4Step_mass:
  assumes "length y = 4"
  shows "rk4Step rocketODEs t y dt ps ! 2 =
    (let w = y ! 3; k1 = water_rate ps w; k2 = water_rate ps (w + dt / 2 * k1);
         k3 = water_rate ps (w + dt / 2 * k2); k4 = water_rate ps (w + dt * k3)
     in y ! 2 + dt / 6 * (rho_water CONSTANTS * k1 + 2 * (rho_water CONSTANTS * k2)
          + 2 * (rho_water CONSTANTS * k3) + rho_water CONSTANTS * k4))"
  using assms
  by (simp add: rk4Step_def Let_def water_rate_eq mass_rate_eq [unfolded numeral_2_eq_2]
      numeral_2_eq_2)

lemma water_step_le:
  assumes "length y = 4" and "0 \<le> dt"
  shows "rk4Step rocketODEs t y dt ps ! 3 \<le> y ! 3"
proof -
  define k1 where "k1 = water_rate ps (y ! 3)"
  define k2 where "k2 = water_rate ps (y ! 3 + dt / 2 * k1)"
  define k3 where "k3 = water_rate ps (y ! 3 + dt / 2 * k2)"
  define k4 where "k4 = water_rate ps (y ! 3 + dt * k3)"
  have "k1 \<le> 0" "k2 \<le> 0" "k3 \<le> 0" "k4 \<le> 0"
    unfolding k1_def k2_def k3_def k4_def by (rule water_rate_nonpos)+
  then have "k1 + 2 * k2 + 2 * k3 + k4 \<le> 0" by simp
  with assms(2) have "dt / 6 * (k1 + 2 * k2 + 2 * k3 + k4) \<le> 0"
    by (simp add: mult_nonneg_nonpos)
  moreover have "rk4Step rocketODEs t y dt ps ! 3 = y ! 3 + dt / 6 * (k1 + 2 * k2 + 2 * k3 + k4)"
    unfolding rk4Step_water [OF assms(1)] Let_def k1_def k2_def k3_def k4_def ..
  ultimately show ?thesis by simp
qed



lemma water_frozen_step:
  assumes "length y = 4" and "y ! 3 \<le> 0"
  shows "rk4Step rocketODEs t y dt ps ! 3 = y ! 3" and "rk4Step rocketODEs t y dt ps ! 2 = y ! 2"
  unfolding rk4Step_mass [OF assms(1)] rk4Step_water [OF assms(1)] Let_def
  using assms(2) by (simp_all add: water_rate_exhausted)

subsection \<open>Mass and water along a run\<close>

lemma length_state_at: "length (sim_y (state_at f Cd p n)) = 4"
  by (induction n)
    (simp_all add: state_at_0 state_at_Suc initial_state_def Let_def sim_y_loop_body
      length_rk4Step)

lemma water_state_le:
  "waterVolume (state_at f Cd p (Suc n)) \<le> waterVolume (state_at f Cd p n)"
  unfolding state_at_Suc sim_y_loop_body
  by (rule water_step_le) (simp_all add: length_state_at sim_dt_def)



lemma water_state_frozen:
  assumes "waterVolume (state_at f Cd p n) \<le> 0"
  shows "waterVolume (state_at f Cd p (n + j)) = waterVolume (state_at f Cd p n)"
proof (induction j)
  case 0
  show ?case by simp
next
  case (Suc j)
  have "waterVolume (state_at f Cd p (Suc (n + j))) = waterVolume (state_at f Cd p (n + j))"
    unfolding state_at_Suc sim_y_loop_body
    by (rule water_frozen_step) (simp_all add: length_state_at Suc assms)
  with Suc show ?case by simp
qed

subsection \<open>A run that does not lift off\<close>

lemma rocketODEs_free:
  assumes "y ! 3 \<le> 0 \<or>
    P_0_abs ps * (V_air_0 ps / (tank_volume CONSTANTS - y ! 3)) powr gamma CONSTANTS
      - P_atm CONSTANTS \<le> 0"
  shows "rocketODEs t y ps =
    [- g CONSTANTS + - 0.5 * rho_air CONSTANTS * C_d ps * A_bottle * y ! 0 * \<bar>y ! 0\<bar> / y ! 2,
     y ! 0, 0, 0]"
  using assms by (auto simp: rocketODEs_def Let_def)

lemma sim_params_fields:
  "V_air_0 (sim_params f Cd p) = tank_volume CONSTANTS - f * tank_volume CONSTANTS"
  "C_d (sim_params f Cd p) = Cd"
  "P_0_abs (sim_params f Cd p) = p * 6894.76 + P_atm CONSTANTS"
  by (simp_all add: sim_params_def Let_def)

lemma rocketODEs_powered:
  assumes "\<not> y ! 3 \<le> 0"
    and "\<not> P_0_abs ps * (V_air_0 ps / (tank_volume CONSTANTS - y ! 3)) powr gamma CONSTANTS
      - P_atm CONSTANTS \<le> 0"
  shows "rocketODEs t y ps =
    [(rho_water CONSTANTS * A_nozzle
        * sqrt (2 * (P_0_abs ps * (V_air_0 ps / (tank_volume CONSTANTS - y ! 3)) powr gamma CONSTANTS
                 - P_atm CONSTANTS)
             / (rho_water CONSTANTS * (1 - (d_nozzle CONSTANTS / d_bottle CONSTANTS) powr 4)))
        * sqrt (2 * (P_0_abs ps * (V_air_0 ps / (tank_volume CONSTANTS - y ! 3)) powr gamma CONSTANTS
                 - P_atm CONSTANTS)
             / (rho_water CONSTANTS * (1 - (d_nozzle CONSTANTS / d_bottle CONSTANTS) powr 4)))) / y ! 2
       - g CONSTANTS
       + - 0.5 * rho_air CONSTANTS * C_d ps * A_bottle * y ! 0 * \<bar>y ! 0\<bar> / y ! 2,
     y ! 0,
     rho_water CONSTANTS * (- A_nozzle
        * sqrt (2 * (P_0_abs ps * (V_air_0 ps / (tank_volume CONSTANTS - y ! 3)) powr gamma CONSTANTS
                 - P_atm CONSTANTS)
             / (rho_water CONSTANTS * (1 - (d_nozzle CONSTANTS / d_bottle CONSTANTS) powr 4)))),
     - A_nozzle
        * sqrt (2 * (P_0_abs ps * (V_air_0 ps / (tank_volume CONSTANTS - y ! 3)) powr gamma CONSTANTS
                 - P_atm CONSTANTS)
             / (rho_water CONSTANTS * (1 - (d_nozzle CONSTANTS / d_bottle CONSTANTS) powr 4)))]"
  using assms by (simp add: rocketODEs_def Let_def)

lemma drag_bounds:
  assumes "0 \<le> Cd" "Cd \<le> 1" "7 / 100 \<le> m" "- 1 \<le> v" "v \<le> 0"
  shows "0 \<le> - 0.5 * rho_air CONSTANTS * Cd * A_bottle * v * \<bar>v\<bar> / m"
    and "- 0.5 * rho_air CONSTANTS * Cd * A_bottle * v * \<bar>v\<bar> / m \<le> 1"
proof -
  have A: "0 \<le> A_bottle" "A_bottle \<le> 1 / 100"
    using pi_less_4 pi_gt_zero by (simp_all add: A_bottle_def CONSTANTS_def power2_eq_square)
  have vv: "0 \<le> v * v" "v * v \<le> 1"
  proof -
    show "0 \<le> v * v" by simp
    have "(- v) * (- v) \<le> 1 * 1"
      by (rule mult_mono) (use assms(4,5) in simp_all)
    then show "v * v \<le> 1" by simp
  qed
  define c where "c = 0.5 * rho_air CONSTANTS * Cd * A_bottle"
  have c: "0 \<le> c" "c \<le> 1 / 100"
  proof -
    show "0 \<le> c" unfolding c_def using assms(1) A(1) by (simp add: CONSTANTS_def)
    have "Cd * A_bottle \<le> 1 * (1 / 100)"
      using assms(1,2) A by (intro mult_mono) simp_all
    then show "c \<le> 1 / 100" unfolding c_def by (simp add: CONSTANTS_def)
  qed
  define D where "D = c * (v * v) / m"
  have d: "- 0.5 * rho_air CONSTANTS * Cd * A_bottle * v * \<bar>v\<bar> / m = D"
    using assms(5) by (simp add: c_def D_def abs_if)
  have X0: "0 \<le> c * (v * v)"
    using c vv by simp
  have X1: "c * (v * v) \<le> 1 / 100 * 1"
    by (rule mult_mono) (use c vv in simp_all)
  have m: "0 < m" using assms(3) by simp
  have "D \<le> (1 / 100 * 1) / (7 / 100)"
    unfolding D_def by (rule frac_le) (use X1 assms(3) in simp_all)
  moreover have "0 \<le> D"
    unfolding D_def using X0 m by simp
  ultimately show "0 \<le> - 0.5 * rho_air CONSTANTS * Cd * A_bottle * v * \<bar>v\<bar> / m"
    and "- 0.5 * rho_air CONSTANTS * Cd * A_bottle * v * \<bar>v\<bar> / m \<le> 1"
    unfolding d by simp_all
qed

lemma weak_thrust:
  assumes "f < 1" and "0 \<le> Cd" "Cd \<le> 1" and "0 \<le> p" "p \<le> 1 / 1000"
    and "7 / 100 \<le> y ! 2" and "- 1 \<le> y ! 0" "y ! 0 \<le> 0"
    and "y ! 3 \<le> f * tank_volume CONSTANTS"
  shows "- g CONSTANTS \<le> rocketODEs t y (sim_params f Cd p) ! 0"
    and "rocketODEs t y (sim_params f Cd p) ! 0 \<le> - (g CONSTANTS / 2)"
    and "rocketODEs t y (sim_params f Cd p) ! 1 = y ! 0"
    and "- (1 / 1000) \<le> rocketODEs t y (sim_params f Cd p) ! 3"
    and "rocketODEs t y (sim_params f Cd p) ! 3 \<le> 0"
    and "rocketODEs t y (sim_params f Cd p) ! 2
           = rho_water CONSTANTS * rocketODEs t y (sim_params f Cd p) ! 3"
proof -
  define ps where "ps = sim_params f Cd p"
  define D where "D = - 0.5 * rho_air CONSTANTS * C_d ps * A_bottle * y ! 0 * \<bar>y ! 0\<bar> / y ! 2"
  define dP where "dP = P_0_abs ps * (V_air_0 ps / (tank_volume CONSTANTS - y ! 3)) powr gamma CONSTANTS
      - P_atm CONSTANTS"
  define dn where "dn = rho_water CONSTANTS * (1 - (d_nozzle CONSTANTS / d_bottle CONSTANTS) powr 4)"
  define ve where "ve = sqrt (2 * dP / dn)"
  have D: "0 \<le> D" "D \<le> 1"
    unfolding D_def ps_def sim_params_fields
    using drag_bounds [OF assms(2,3,6,7,8)] by simp_all
  have goal: "- g CONSTANTS \<le> rocketODEs t y ps ! 0
      \<and> rocketODEs t y ps ! 0 \<le> - (g CONSTANTS / 2)
      \<and> rocketODEs t y ps ! 1 = y ! 0
      \<and> - (1 / 1000) \<le> rocketODEs t y ps ! 3
      \<and> rocketODEs t y ps ! 3 \<le> 0
      \<and> rocketODEs t y ps ! 2 = rho_water CONSTANTS * rocketODEs t y ps ! 3"
  proof (cases "y ! 3 \<le> 0 \<or> dP \<le> 0")
    case True
    then have "rocketODEs t y ps = [- g CONSTANTS + D, y ! 0, 0, 0]"
      unfolding D_def dP_def by (rule rocketODEs_free)
    with D show ?thesis
      by (simp add: CONSTANTS_def)
  next
    case False
    then have w: "\<not> y ! 3 \<le> 0" and dP: "\<not> dP \<le> 0"
      by simp_all
    define T where "T = (rho_water CONSTANTS * A_nozzle * ve * ve) / y ! 2"
    define Q where "Q = - A_nozzle * ve"
    have k: "rocketODEs t y ps = [T - g CONSTANTS + D, y ! 0, rho_water CONSTANTS * Q, Q]"
      unfolding T_def Q_def ve_def D_def dn_def
      using rocketODEs_powered [OF w dP [unfolded dP_def], of t] unfolding dP_def [symmetric] .
    \<comment> \<open>the pressure difference is at most 7 Pa\<close>
    define va0 where "va0 = tank_volume CONSTANTS - f * tank_volume CONSTANTS"
    have va0: "0 < va0"
      using assms(1) by (simp add: va0_def CONSTANTS_def)
    have va: "va0 \<le> tank_volume CONSTANTS - y ! 3"
      using assms(9) by (simp add: va0_def)
    define r where "r = va0 / (tank_volume CONSTANTS - y ! 3)"
    have r: "0 \<le> r" "r \<le> 1"
      unfolding r_def using va0 va by simp_all
    have g: "0 \<le> gamma CONSTANTS"
      by (simp add: CONSTANTS_def)
    have "r powr gamma CONSTANTS \<le> 1 powr gamma CONSTANTS"
      using g r by (rule powr_mono2)
    then have "r powr gamma CONSTANTS \<le> 1"
      by simp
    then have pw: "(va0 / (tank_volume CONSTANTS - y ! 3)) powr gamma CONSTANTS \<le> 1"
      by (simp only: r_def)
    have P0: "0 \<le> P_0_abs ps" "P_0_abs ps \<le> P_atm CONSTANTS + 7"
      using assms(4,5) by (simp_all add: ps_def sim_params_fields CONSTANTS_def)
    have "P_0_abs ps * (va0 / (tank_volume CONSTANTS - y ! 3)) powr gamma CONSTANTS
        \<le> P_0_abs ps * 1"
      using P0(1) pw by (rule mult_left_mono [rotated])
    with P0(2) have dP7: "dP \<le> 7"
      by (simp add: dP_def ps_def sim_params_fields va0_def)
    from dP have dP0: "0 < dP" by simp
    have dn: "dn = 1000 * (31183649 / 31640625)"
      unfolding dn_def nozzle_factor by (simp add: CONSTANTS_def)
    have x: "0 \<le> 2 * dP / dn" "2 * dP / dn \<le> 1 / 50"
      using dP0 dP7 by (simp_all add: dn)
    have ve0: "0 \<le> ve"
      unfolding ve_def using x(1) by simp
    define X where "X = 2 * dP / dn"
    have "0 \<le> X"
      unfolding X_def by (rule x(1))
    then have "sqrt X * sqrt X = X"
      by simp
    then have ve2: "ve * ve = 2 * dP / dn"
      by (simp only: ve_def X_def)
    have "ve \<le> sqrt 1"
      unfolding ve_def using x(2) by (intro real_sqrt_le_mono) simp
    then have ve1: "ve \<le> 1" by simp
    have A: "0 \<le> A_nozzle" "A_nozzle \<le> 1 / 1000"
      using pi_less_4 pi_gt_zero by (simp_all add: A_nozzle_def CONSTANTS_def power2_eq_square)
    have Av: "0 \<le> A_nozzle * ve" "A_nozzle * ve \<le> 1 / 1000 * 1"
    proof -
      show "0 \<le> A_nozzle * ve"
        using A(1) ve0 by (rule mult_nonneg_nonneg)
      show "A_nozzle * ve \<le> 1 / 1000 * 1"
        by (rule mult_mono) (use A ve0 ve1 in simp_all)
    qed
    have Ax: "0 \<le> A_nozzle * (2 * dP / dn)" "A_nozzle * (2 * dP / dn) \<le> 1 / 1000 * (1 / 50)"
    proof -
      show "0 \<le> A_nozzle * (2 * dP / dn)"
        using A(1) x(1) by (rule mult_nonneg_nonneg)
      show "A_nozzle * (2 * dP / dn) \<le> 1 / 1000 * (1 / 50)"
        by (rule mult_mono) (use A x in simp_all)
    qed
    define N where "N = rho_water CONSTANTS * A_nozzle * ve * ve"
    have "N = 1000 * (A_nozzle * (2 * dP / dn))"
      unfolding N_def using ve2 by (simp add: CONSTANTS_def mult.assoc)
    with Ax have N: "0 \<le> N" "N \<le> 1 / 50"
      by simp_all
    have m: "0 < y ! 2"
      using assms(6) by simp
    have T: "0 \<le> T" "T \<le> (1 / 50) / (7 / 100)"
    proof -
      show "0 \<le> T"
        unfolding T_def N_def [symmetric] using N(1) m by simp
      show "T \<le> (1 / 50) / (7 / 100)"
        unfolding T_def N_def [symmetric] by (rule frac_le) (use N assms(6) in simp_all)
    qed
    have Q: "- (1 / 1000) \<le> Q" "Q \<le> 0"
      unfolding Q_def using Av by simp_all
    show ?thesis
      unfolding k using T D Q by (simp add: CONSTANTS_def)
  qed
  then show "- g CONSTANTS \<le> rocketODEs t y (sim_params f Cd p) ! 0"
    and "rocketODEs t y (sim_params f Cd p) ! 0 \<le> - (g CONSTANTS / 2)"
    and "rocketODEs t y (sim_params f Cd p) ! 1 = y ! 0"
    and "- (1 / 1000) \<le> rocketODEs t y (sim_params f Cd p) ! 3"
    and "rocketODEs t y (sim_params f Cd p) ! 3 \<le> 0"
    and "rocketODEs t y (sim_params f Cd p) ! 2
           = rho_water CONSTANTS * rocketODEs t y (sim_params f Cd p) ! 3"
    unfolding ps_def by simp_all
qed

lemma low_pressure_first_step:
  assumes "0 \<le> f" "f < 1" and "0 \<le> Cd" "Cd \<le> 1" and "0 \<le> p" "p \<le> 1 / 1000"
  shows "altitude (state_at f Cd p (Suc 0)) < 0"
    and "f * tank_volume CONSTANTS - 2 / 1000000 \<le> waterVolume (state_at f Cd p (Suc 0))"
proof -
  define ps where "ps = sim_params f Cd p"
  define m0 where "m0 = mass_empty CONSTANTS + rho_water CONSTANTS * (f * tank_volume CONSTANTS)"
  define w0 where "w0 = f * tank_volume CONSTANTS"
  define y0 where "y0 = [0, 0, m0, w0]"
  define k1 where "k1 = rocketODEs 0 y0 ps"
  define y2 where "y2 = map (\<lambda>i. y0 ! i + sim_dt / 2 * k1 ! i) [0..<length y0]"
  define k2 where "k2 = rocketODEs (0 + sim_dt / 2) y2 ps"
  define y3 where "y3 = map (\<lambda>i. y0 ! i + sim_dt / 2 * k2 ! i) [0..<length y0]"
  define k3 where "k3 = rocketODEs (0 + sim_dt / 2) y3 ps"
  define y4 where "y4 = map (\<lambda>i. y0 ! i + sim_dt * k3 ! i) [0..<length y0]"
  define k4 where "k4 = rocketODEs (0 + sim_dt) y4 ps"
  note wt = weak_thrust [OF assms(2,3,4,5,6), folded ps_def w0_def]
  have m0: "765 / 10000 \<le> m0"
    using assms(1) by (simp add: m0_def CONSTANTS_def)
  have len: "length y0 = 4" by (simp add: y0_def)
  have y0: "y0 ! 0 = 0" "y0 ! Suc 0 = 0" "y0 ! 2 = m0" "y0 ! 3 = w0"
    by (simp_all add: y0_def)
  have step: "rk4Step rocketODEs 0 y0 sim_dt ps ! i
      = y0 ! i + sim_dt / 6 * (k1 ! i + 2 * k2 ! i + 2 * k3 ! i + k4 ! i)" if "i < 4" for i
    using that
    by (simp add: rk4Step_def Let_def len k1_def k2_def k3_def k4_def y2_def y3_def y4_def)
  have y2: "y2 ! i = y0 ! i + sim_dt / 2 * k1 ! i" if "i < 4" for i
    using that by (simp add: y2_def len)
  have y3: "y3 ! i = y0 ! i + sim_dt / 2 * k2 ! i" if "i < 4" for i
    using that by (simp add: y3_def len)
  have y4: "y4 ! i = y0 ! i + sim_dt * k3 ! i" if "i < 4" for i
    using that by (simp add: y4_def len)
  \<comment> \<open>first stage\<close>
  have b1: "- g CONSTANTS \<le> k1 ! 0" "k1 ! 0 \<le> - (g CONSTANTS / 2)" "k1 ! Suc 0 = 0"
    "- (1 / 1000) \<le> k1 ! 3" "k1 ! 3 \<le> 0" "k1 ! 2 = rho_water CONSTANTS * k1 ! 3"
    unfolding k1_def using wt [of y0 0] m0 by (simp_all add: y0)
  \<comment> \<open>second stage\<close>
  have s2: "7 / 100 \<le> y2 ! 2" "- 1 \<le> y2 ! 0" "y2 ! 0 \<le> - (g CONSTANTS / 2000)" "y2 ! 3 \<le> w0"
    using b1 m0 by (simp_all add: y2 y0 sim_dt_def CONSTANTS_def)
  then have s2': "y2 ! 0 \<le> 0"
    by (simp add: CONSTANTS_def)
  have b2: "- g CONSTANTS \<le> k2 ! 0" "k2 ! 0 \<le> - (g CONSTANTS / 2)" "k2 ! Suc 0 = y2 ! 0"
    "- (1 / 1000) \<le> k2 ! 3" "k2 ! 3 \<le> 0" "k2 ! 2 = rho_water CONSTANTS * k2 ! 3"
    unfolding k2_def using wt [OF s2(1,2) s2' s2(4)] by simp_all
  \<comment> \<open>third stage\<close>
  have s3: "7 / 100 \<le> y3 ! 2" "- 1 \<le> y3 ! 0" "y3 ! 0 \<le> 0" "y3 ! 3 \<le> w0"
    using b2 m0 by (simp_all add: y3 y0 sim_dt_def CONSTANTS_def)
  have b3: "- g CONSTANTS \<le> k3 ! 0" "k3 ! 0 \<le> - (g CONSTANTS / 2)" "k3 ! Suc 0 = y3 ! 0"
    "- (1 / 1000) \<le> k3 ! 3" "k3 ! 3 \<le> 0" "k3 ! 2 = rho_water CONSTANTS * k3 ! 3"
    unfolding k3_def using wt [OF s3] by simp_all
  \<comment> \<open>fourth stage\<close>
  have s4: "7 / 100 \<le> y4 ! 2" "- 1 \<le> y4 ! 0" "y4 ! 0 \<le> 0" "y4 ! 3 \<le> w0"
    using b3 m0 by (simp_all add: y4 y0 sim_dt_def CONSTANTS_def)
  have b4: "k4 ! Suc 0 = y4 ! 0" "- (1 / 1000) \<le> k4 ! 3"
    unfolding k4_def using wt [OF s4] by simp_all
  have "rk4Step rocketODEs 0 y0 sim_dt ps ! Suc 0
      = y0 ! Suc 0 + sim_dt / 6 * (k1 ! Suc 0 + 2 * k2 ! Suc 0 + 2 * k3 ! Suc 0 + k4 ! Suc 0)"
    by (rule step) simp
  also have "\<dots> = sim_dt / 6 * (2 * y2 ! 0 + 2 * y3 ! 0 + y4 ! 0)"
    unfolding b1(3) b2(3) b3(3) b4(1) y0(2) by simp
  also have "\<dots> < 0"
    using s2(3) s3(3) s4(3) by (simp add: sim_dt_def CONSTANTS_def)
  finally show "altitude (state_at f Cd p (Suc 0)) < 0"
    by (simp add: state_at_def sim_y_loop_body initial_state_def Let_def
        y0_def m0_def ps_def w0_def)
  have "rk4Step rocketODEs 0 y0 sim_dt ps ! 3
      = w0 + sim_dt / 6 * (k1 ! 3 + 2 * k2 ! 3 + 2 * k3 ! 3 + k4 ! 3)"
    using step [of 3] by (simp add: y0)
  moreover have "- (6 / 1000) \<le> k1 ! 3 + 2 * k2 ! 3 + 2 * k3 ! 3 + k4 ! 3"
    using b1(4) b2(4) b3(4) b4(2) by simp
  ultimately have "w0 - 2 / 1000000 \<le> rk4Step rocketODEs 0 y0 sim_dt ps ! 3"
    by (simp add: sim_dt_def)
  then show "f * tank_volume CONSTANTS - 2 / 1000000 \<le> waterVolume (state_at f Cd p (Suc 0))"
    by (simp add: state_at_def sim_y_loop_body initial_state_def Let_def
        y0_def m0_def ps_def w0_def)
qed

lemma grounded_after_first_step:
  assumes "altitude (state_at f Cd p (Suc 0)) < 0"
  shows "run_steps f Cd p = Suc 0" and "maxH (runSimulation f Cd p) = 0"
proof -
  have r0: "running (initial_state f)"
    by (simp add: running_def initial_state_def Let_def)
  have r1: "\<not> running (loop_body (sim_params f Cd p) (initial_state f))"
    using assms by (simp add: running_def state_at_def)
  show n: "run_steps f Cd p = Suc 0"
    unfolding run_steps_def
    by (subst steps.simps, simp only: r0 if_True, subst steps.simps, simp only: r1 if_False)
  have "maxH (state_at f Cd p (Suc 0)) = 0"
    using assms by (simp add: state_at_def maxH_loop_body initial_state_def Let_def)
  then show "maxH (runSimulation f Cd p) = 0"
    by (simp add: runSimulation_def truncate_fields run_loop_state_at n)
qed


subsection \<open>A run that empties the tank within its first step\<close>

lemma tiny_fill_rate:
  "water_rate (sim_params (1 / 1000000) Cd 60) (8 / 10 ^ 10) \<le> - (8 / 1000)"
proof -
  define ps where "ps = sim_params (1 / 1000000) Cd 60"
  define x :: real where "x = 8 / 10000 - 8 / 10 ^ 10"
  have x: "x \<noteq> 0" by (simp add: x_def)
  have va: "V_air_0 ps = x" "tank_volume CONSTANTS - 8 / 10 ^ 10 = x"
    by (simp_all add: ps_def sim_params_fields x_def CONSTANTS_def)
  have p0: "P_0_abs ps = 5150106 / 10" "P_atm CONSTANTS = 101325"
    by (simp_all add: ps_def sim_params_fields CONSTANTS_def)
  have one: "(x / x) powr gamma CONSTANTS = 1"
    using x by simp
  have dn: "rho_water CONSTANTS * (1 - (d_nozzle CONSTANTS / d_bottle CONSTANTS) powr 4)
      = 1000 * (31183649 / 31640625)"
    unfolding nozzle_factor by (simp add: CONSTANTS_def)
  have wr: "water_rate ps (8 / 10 ^ 10)
      = - (A_nozzle * sqrt (2 * (4136856 / 10) / (1000 * (31183649 / 31640625))))"
    unfolding water_rate_cases va p0 one dn by simp
  have "28\<^sup>2 \<le> 2 * (4136856 / 10) / (1000 * (31183649 / 31640625 :: real))"
    by simp
  then have s: "28 \<le> sqrt (2 * (4136856 / 10) / (1000 * (31183649 / 31640625)))"
    by (rule real_le_rsqrt)
  have a: "3 / 10000 \<le> A_nozzle"
    using pi_ge_two by (simp add: A_nozzle_def CONSTANTS_def power2_eq_square)
  have "3 / 10000 * 28 \<le> A_nozzle * sqrt (2 * (4136856 / 10) / (1000 * (31183649 / 31640625)))"
    by (rule mult_mono) (use a s in simp_all)
  then show ?thesis
    unfolding ps_def [symmetric] wr by simp
qed

lemma tiny_fill_first_step:
  "waterVolume (state_at (1 / 1000000) Cd 60 (Suc 0)) < - (7 / 1000000)"
proof -
  define ps where "ps = sim_params (1 / 1000000) Cd 60"
  define w0 :: real where "w0 = 8 / 10 ^ 10"
  define R where "R = water_rate ps w0"
  define y0 :: "real list" where
    "y0 = [0, 0, mass_empty CONSTANTS + rho_water CONSTANTS * (1 / 1000000 * tank_volume CONSTANTS),
           1 / 1000000 * tank_volume CONSTANTS]"
  have R: "R \<le> - (8 / 1000)"
    unfolding R_def ps_def w0_def by (rule tiny_fill_rate)
  have len: "length y0 = 4" and w: "y0 ! 3 = w0"
    by (simp_all add: y0_def CONSTANTS_def w0_def)
  have k2: "water_rate ps (w0 + sim_dt / 2 * R) = 0"
    by (rule water_rate_exhausted) (use R in \<open>simp add: sim_dt_def w0_def\<close>)
  have k4: "water_rate ps (w0 + sim_dt * R) = 0"
    by (rule water_rate_exhausted) (use R in \<open>simp add: sim_dt_def w0_def\<close>)
  have k3: "water_rate ps (w0 + sim_dt / 2 * 0) = R"
    by (simp add: R_def)
  have "rk4Step rocketODEs 0 y0 sim_dt ps ! 3 = w0 + sim_dt / 6 * (R + 2 * 0 + 2 * R + 0)"
    unfolding rk4Step_water [OF len] Let_def w R_def [symmetric] k2 k3 k4 ..
  also have "\<dots> < - (7 / 1000000)"
    using R by (simp add: sim_dt_def w0_def)
  finally show ?thesis
    by (simp add: state_at_def sim_y_loop_body initial_state_def Let_def y0_def ps_def)
qed

subsection \<open>Claims about mass and water\<close>




text \<open>
  Claim C4 as stated fails. With \<open>fillRatio = 0.000001\<close>, \<open>dragCoefficient = 0.4\<close> and
  60 PSI the water volume starts at 0.0000000008 cubic metres and is below -0.000007
  cubic metres after the first step: it passes zero and does not stop there.
\<close>

theorem water_negative_counterexample:
  "1 \<le> run_steps (1 / 1000000) (2 / 5) 60
   \<and> waterVolume (state_at (1 / 1000000) (2 / 5) 60 0) = 8 / 10 ^ 10
   \<and> waterVolume (state_at (1 / 1000000) (2 / 5) 60 1) < - (7 / 1000000)"
  using tiny_fill_first_step [of "2 / 5"] run_steps_pos [of "1 / 1000000" "2 / 5" 60]
  by (simp add: state_at_0 initial_state_def Let_def CONSTANTS_def)

text \<open>
  Claim C4, amended. For every run the water volume is non-increasing from step to
  step, and from a step at which it is \<open>\<le> 0\<close> onward it keeps the value it has at that
  step.
\<close>

theorem water_along_run:
  "waterVolume (state_at f Cd p (Suc n)) \<le> waterVolume (state_at f Cd p n)
   \<and> (waterVolume (state_at f Cd p n) \<le> 0 \<longrightarrow>
        waterVolume (state_at f Cd p (n + j)) = waterVolume (state_at f Cd p n))"
  using water_state_le [of f Cd p n] water_state_frozen [of f Cd p n j] by blast

theorem water_along_run_witness:
  "waterVolume (state_at (1 / 1000000) (2 / 5) 60 1) \<le> waterVolume (state_at (1 / 1000000) (2 / 5) 60 0)
   \<and> waterVolume (state_at (1 / 1000000) (2 / 5) 60 (1 + 3)) = waterVolume (state_at (1 / 1000000) (2 / 5) 60 1)"
proof -
  have "waterVolume (state_at (1 / 1000000) (2 / 5) 60 1) \<le> 0"
    using tiny_fill_first_step [of "2 / 5"] by simp
  then show ?thesis
    using water_along_run [of "1 / 1000000" "2 / 5" 60 1 3]
      water_along_run [of "1 / 1000000" "2 / 5" 60 0 0]
    by simp
qed

subsection \<open>The burnout markers\<close>

lemma burnoutTime_state_Suc:
  "burnoutTime (state_at f Cd p (Suc n)) =
     (if waterVolume (state_at f Cd p (Suc n)) \<le> 0 \<and> burnoutTime (state_at f Cd p n) = None
      then Some (sim_t (state_at f Cd p (Suc n))) else burnoutTime (state_at f Cd p n))"
  unfolding state_at_Suc by (rule burnoutTime_loop_body)

lemma burnoutAlt_state_Suc:
  "burnoutAlt (state_at f Cd p (Suc n)) =
     (if waterVolume (state_at f Cd p (Suc n)) \<le> 0 \<and> burnoutTime (state_at f Cd p n) = None
      then Some (altitude (state_at f Cd p (Suc n))) else burnoutAlt (state_at f Cd p n))"
  unfolding state_at_Suc by (rule burnoutAlt_loop_body)

lemma burnoutVel_state_Suc:
  "burnoutVel (state_at f Cd p (Suc n)) =
     (if waterVolume (state_at f Cd p (Suc n)) \<le> 0 \<and> burnoutTime (state_at f Cd p n) = None
      then Some (velocity (state_at f Cd p (Suc n))) else burnoutVel (state_at f Cd p n))"
  unfolding state_at_Suc by (rule burnoutVel_loop_body)

lemma markers_none:
  assumes "\<forall>k. 1 \<le> k \<and> k \<le> n \<longrightarrow> 0 < waterVolume (state_at f Cd p k)"
  shows "burnoutTime (state_at f Cd p n) = None \<and> burnoutAlt (state_at f Cd p n) = None
    \<and> burnoutVel (state_at f Cd p n) = None"
  using assms
proof (induction n)
  case 0
  show ?case by (simp add: state_at_0 initial_state_def Let_def)
next
  case (Suc n)
  then have "burnoutTime (state_at f Cd p n) = None \<and> burnoutAlt (state_at f Cd p n) = None
    \<and> burnoutVel (state_at f Cd p n) = None"
    by simp
  moreover from Suc.prems have "0 < waterVolume (state_at f Cd p (Suc n))"
    by simp
  ultimately show ?case
    by (simp add: burnoutTime_state_Suc burnoutAlt_state_Suc burnoutVel_state_Suc)
qed

lemma markers_at_crossing:
  assumes "1 \<le> k" and "waterVolume (state_at f Cd p k) \<le> 0"
    and "\<forall>j. 1 \<le> j \<and> j < k \<longrightarrow> 0 < waterVolume (state_at f Cd p j)"
  shows "burnoutTime (state_at f Cd p k) = Some (sim_t (state_at f Cd p k))
    \<and> burnoutAlt (state_at f Cd p k) = Some (altitude (state_at f Cd p k))
    \<and> burnoutVel (state_at f Cd p k) = Some (velocity (state_at f Cd p k))"
proof -
  from assms(1) obtain i where k: "k = Suc i"
    by (cases k) simp_all
  from assms(3) have "\<forall>j. 1 \<le> j \<and> j \<le> i \<longrightarrow> 0 < waterVolume (state_at f Cd p j)"
    by (simp add: k)
  then have "burnoutTime (state_at f Cd p i) = None"
    using markers_none [of i f Cd p] by simp
  with assms(2) show ?thesis
    unfolding k
    by (simp add: burnoutTime_state_Suc burnoutAlt_state_Suc burnoutVel_state_Suc)
qed

lemma markers_kept:
  assumes "burnoutTime (state_at f Cd p k) \<noteq> None"
  shows "burnoutTime (state_at f Cd p (k + j)) = burnoutTime (state_at f Cd p k)
    \<and> burnoutAlt (state_at f Cd p (k + j)) = burnoutAlt (state_at f Cd p k)
    \<and> burnoutVel (state_at f Cd p (k + j)) = burnoutVel (state_at f Cd p k)"
proof (induction j)
  case 0
  show ?case by simp
next
  case (Suc j)
  with assms have "burnoutTime (state_at f Cd p (k + j)) \<noteq> None"
    by simp
  with Suc show ?case
    by (auto simp: burnoutTime_state_Suc burnoutAlt_state_Suc burnoutVel_state_Suc)
qed

lemma result_of_run:
  "trajectory (runSimulation f Cd p) = trajectory (state_at f Cd p (run_steps f Cd p))"
  "maxH (runSimulation f Cd p) = maxH (state_at f Cd p (run_steps f Cd p))"
  "burnoutTime (runSimulation f Cd p) = burnoutTime (state_at f Cd p (run_steps f Cd p))"
  "burnoutAlt (runSimulation f Cd p) = burnoutAlt (state_at f Cd p (run_steps f Cd p))"
  "burnoutVel (runSimulation f Cd p) = burnoutVel (state_at f Cd p (run_steps f Cd p))"
  by (simp_all add: runSimulation_def truncate_fields run_loop_state_at)

text \<open>
  Claim C5. The burnout markers are recorded once, at the first step after which the
  water volume is \<open>\<le> 0\<close>, with the time, altitude and velocity of that step, and every
  later state carries the same markers; when no step of the run has a water volume
  \<open>\<le> 0\<close>, the three markers of the result are null. The result has the markers of the
  last state of the run.
\<close>

theorem burnout_recorded_once:
  "((\<forall>k. 1 \<le> k \<and> k \<le> run_steps f Cd p \<longrightarrow> 0 < waterVolume (state_at f Cd p k)) \<longrightarrow>
      burnoutTime (runSimulation f Cd p) = None \<and> burnoutAlt (runSimulation f Cd p) = None
      \<and> burnoutVel (runSimulation f Cd p) = None)
   \<and> (1 \<le> k \<and> k \<le> n \<and> waterVolume (state_at f Cd p k) \<le> 0
        \<and> (\<forall>j. 1 \<le> j \<and> j < k \<longrightarrow> 0 < waterVolume (state_at f Cd p j)) \<longrightarrow>
      burnoutTime (state_at f Cd p n) = Some (sim_t (state_at f Cd p k))
      \<and> burnoutAlt (state_at f Cd p n) = Some (altitude (state_at f Cd p k))
      \<and> burnoutVel (state_at f Cd p n) = Some (velocity (state_at f Cd p k)))
   \<and> burnoutTime (runSimulation f Cd p) = burnoutTime (state_at f Cd p (run_steps f Cd p))
   \<and> burnoutAlt (runSimulation f Cd p) = burnoutAlt (state_at f Cd p (run_steps f Cd p))
   \<and> burnoutVel (runSimulation f Cd p) = burnoutVel (state_at f Cd p (run_steps f Cd p))"
proof -
  have a: "burnoutTime (runSimulation f Cd p) = None \<and> burnoutAlt (runSimulation f Cd p) = None
      \<and> burnoutVel (runSimulation f Cd p) = None"
    if "\<forall>k. 1 \<le> k \<and> k \<le> run_steps f Cd p \<longrightarrow> 0 < waterVolume (state_at f Cd p k)"
    using markers_none [OF that] by (simp add: result_of_run)
  have b: "burnoutTime (state_at f Cd p n) = Some (sim_t (state_at f Cd p k))
      \<and> burnoutAlt (state_at f Cd p n) = Some (altitude (state_at f Cd p k))
      \<and> burnoutVel (state_at f Cd p n) = Some (velocity (state_at f Cd p k))"
    if "1 \<le> k" "k \<le> n" "waterVolume (state_at f Cd p k) \<le> 0"
      "\<forall>j. 1 \<le> j \<and> j < k \<longrightarrow> 0 < waterVolume (state_at f Cd p j)"
  proof -
    note c = markers_at_crossing [OF that(1,3,4)]
    then have "burnoutTime (state_at f Cd p k) \<noteq> None" by simp
    from markers_kept [OF this, of "n - k"] c that(2) show ?thesis by simp
  qed
  from a b show ?thesis
    by (simp add: result_of_run)
qed

theorem burnout_recorded_once_witness:
  "burnoutTime (runSimulation (1 / 1000000) (2 / 5) 60) = Some (2 / 1000)
   \<and> burnoutTime (runSimulation (1 / 2) (2 / 5) (1 / 1000)) = None"
proof -
  have w1: "waterVolume (state_at (1 / 1000000) (2 / 5) 60 1) \<le> 0"
    using tiny_fill_first_step [of "2 / 5"] by simp
  have n1: "1 \<le> run_steps (1 / 1000000) (2 / 5) 60"
    using run_steps_pos [of "1 / 1000000" "2 / 5" 60] by simp
  have "burnoutTime (runSimulation (1 / 1000000) (2 / 5) 60)
      = Some (sim_t (state_at (1 / 1000000) (2 / 5) 60 1))"
    using burnout_recorded_once [of "1 / 1000000" "2 / 5" 60 1 "run_steps (1 / 1000000) (2 / 5) 60"]
      w1 n1 by simp
  then have a: "burnoutTime (runSimulation (1 / 1000000) (2 / 5) 60) = Some (2 / 1000)"
    by (simp add: sim_t_state_at sim_dt_def)
  have "altitude (state_at (1 / 2) (2 / 5) (1 / 1000) (Suc 0)) < 0"
    by (rule low_pressure_first_step) simp_all
  then have n2: "run_steps (1 / 2) (2 / 5) (1 / 1000) = Suc 0"
    by (rule grounded_after_first_step)
  have w2: "0 < waterVolume (state_at (1 / 2) (2 / 5) (1 / 1000) 1)"
    using low_pressure_first_step(2) [of "1 / 2" "2 / 5" "1 / 1000"]
    by (simp add: CONSTANTS_def)
  have "\<forall>k. 1 \<le> k \<and> k \<le> run_steps (1 / 2) (2 / 5) (1 / 1000) \<longrightarrow> 0 < waterVolume (state_at (1 / 2) (2 / 5) (1 / 1000) k)"
  proof (intro allI impI)
    fix k :: nat
    assume "1 \<le> k \<and> k \<le> run_steps (1 / 2) (2 / 5) (1 / 1000)"
    then have "k = 1" unfolding n2 by simp
    with w2 show "0 < waterVolume (state_at (1 / 2) (2 / 5) (1 / 1000) k)" by simp
  qed
  then have b: "burnoutTime (runSimulation (1 / 2) (2 / 5) (1 / 1000)) = None"
    using burnout_recorded_once [of "1 / 2" "2 / 5" "1 / 1000" 0 0] by simp
  from a b show ?thesis by simp
qed

subsection \<open>The trajectory samples\<close>

lemma trajectory_state_Suc:
  "trajectory (state_at f Cd p (Suc n)) =
     (if \<lfloor>sim_t (state_at f Cd p (Suc n)) * 200\<rfloor> > \<lfloor>sim_t (state_at f Cd p n) * 200\<rfloor>
      then trajectory (state_at f Cd p n)
         @ [\<lparr> sample_t = sim_t (state_at f Cd p (Suc n)),
               sample_h = max 0 (altitude (state_at f Cd p (Suc n))),
               sample_v = velocity (state_at f Cd p (Suc n)) \<rparr>]
      else trajectory (state_at f Cd p n))"
  unfolding state_at_Suc by (rule trajectory_loop_body)


lemma samples_from_steps:
  "\<forall>smp \<in> set (trajectory (state_at f Cd p n)).
     smp = \<lparr> sample_t = 0, sample_h = 0, sample_v = 0 \<rparr>
     \<or> (\<exists>k. 1 \<le> k \<and> k \<le> n
           \<and> smp = \<lparr> sample_t = sim_t (state_at f Cd p k),
                      sample_h = max 0 (altitude (state_at f Cd p k)),
                      sample_v = velocity (state_at f Cd p k) \<rparr>)"
proof (induction n)
  case 0
  show ?case by (simp add: state_at_0 initial_state_def Let_def)
next
  case (Suc n)
  show ?case
  proof
    fix smp
    assume "smp \<in> set (trajectory (state_at f Cd p (Suc n)))"
    then consider "smp \<in> set (trajectory (state_at f Cd p n))"
      | "smp = \<lparr> sample_t = sim_t (state_at f Cd p (Suc n)),
                  sample_h = max 0 (altitude (state_at f Cd p (Suc n))),
                  sample_v = velocity (state_at f Cd p (Suc n)) \<rparr>"
      unfolding trajectory_state_Suc by (auto split: if_splits)
    then show "smp = \<lparr> sample_t = 0, sample_h = 0, sample_v = 0 \<rparr>
     \<or> (\<exists>k. 1 \<le> k \<and> k \<le> Suc n
           \<and> smp = \<lparr> sample_t = sim_t (state_at f Cd p k),
                      sample_h = max 0 (altitude (state_at f Cd p k)),
                      sample_v = velocity (state_at f Cd p k) \<rparr>)"
    proof cases
      case 1
      with Suc show ?thesis
        by (meson le_Suc_eq)
    next
      case 2
      then show ?thesis
        by (intro disjI2 exI [of _ "Suc n"]) simp
    qed
  qed
qed



text \<open>
  Claim C9. Every sample of the trajectory but the first comes from a step of the run
  and has the time and the velocity of the state at that step and the altitude
  \<open>max 0\<close> of the altitude of that state. The state vector itself is never clamped:
  the next state vector is what \<open>rk4Step\<close> returns from the current one, the test of
  the loop reads the altitude of the state vector, and the loop ends with the state
  vector of its last step.
\<close>

theorem samples_clamped_state_unclamped:
  "(\<forall>smp \<in> set (trajectory (runSimulation f Cd p)).
      smp = \<lparr> sample_t = 0, sample_h = 0, sample_v = 0 \<rparr>
      \<or> (\<exists>k. 1 \<le> k \<and> k \<le> run_steps f Cd p
            \<and> smp = \<lparr> sample_t = sim_t (state_at f Cd p k),
                       sample_h = max 0 (altitude (state_at f Cd p k)),
                       sample_v = velocity (state_at f Cd p k) \<rparr>))
   \<and> sim_y (state_at f Cd p (Suc n))
       = rk4Step rocketODEs (sim_t (state_at f Cd p n)) (sim_y (state_at f Cd p n)) sim_dt
           (sim_params f Cd p)
   \<and> running (state_at f Cd p n)
       = (sim_t (state_at f Cd p n) < 15 \<and> 0 \<le> altitude (state_at f Cd p n))
   \<and> sim_y (run_loop f Cd p) = sim_y (state_at f Cd p (run_steps f Cd p))"
proof -
  have a: "\<forall>smp \<in> set (trajectory (runSimulation f Cd p)).
      smp = \<lparr> sample_t = 0, sample_h = 0, sample_v = 0 \<rparr>
      \<or> (\<exists>k. 1 \<le> k \<and> k \<le> run_steps f Cd p
            \<and> smp = \<lparr> sample_t = sim_t (state_at f Cd p k),
                       sample_h = max 0 (altitude (state_at f Cd p k)),
                       sample_v = velocity (state_at f Cd p k) \<rparr>)"
    unfolding result_of_run by (rule samples_from_steps)
  have b: "sim_y (state_at f Cd p (Suc n))
       = rk4Step rocketODEs (sim_t (state_at f Cd p n)) (sim_y (state_at f Cd p n)) sim_dt
           (sim_params f Cd p)"
    unfolding state_at_Suc by (rule sim_y_loop_body)
  have c: "running (state_at f Cd p n)
       = (sim_t (state_at f Cd p n) < 15 \<and> 0 \<le> altitude (state_at f Cd p n))"
    by (simp add: running_def)
  have d: "sim_y (run_loop f Cd p) = sim_y (state_at f Cd p (run_steps f Cd p))"
    by (simp add: run_loop_state_at)
  from a b c d show ?thesis by blast
qed

theorem samples_clamped_state_unclamped_witness:
  "set (trajectory (runSimulation (1 / 2) (2 / 5) (1 / 1000))) = {\<lparr> sample_t = 0, sample_h = 0, sample_v = 0 \<rparr>}
   \<and> altitude (run_loop (1 / 2) (2 / 5) (1 / 1000)) < 0"
proof -
  have a: "altitude (state_at (1 / 2) (2 / 5) (1 / 1000) (Suc 0)) < 0"
    by (rule low_pressure_first_step) simp_all
  then have n: "run_steps (1 / 2) (2 / 5) (1 / 1000) = Suc 0"
    by (rule grounded_after_first_step)
  have t: "trajectory (runSimulation (1 / 2) (2 / 5) (1 / 1000)) = [\<lparr> sample_t = 0, sample_h = 0, sample_v = 0 \<rparr>]"
    by (simp add: result_of_run n trajectory_state_Suc sim_t_state_at sim_dt_def
        state_at_0 initial_state_def Let_def)
  from samples_clamped_state_unclamped [of "1 / 2" "2 / 5" "1 / 1000" 0]
  have "sim_y (run_loop (1 / 2) (2 / 5) (1 / 1000)) = sim_y (state_at (1 / 2) (2 / 5) (1 / 1000) (Suc 0))"
    unfolding n by blast
  with a t show ?thesis by simp
qed

subsection \<open>The rounding of doubles\<close>

lemma binexp_bounds:
  assumes "0 < x"
  shows "2 powi binexp x \<le> x \<and> x < 2 powi (binexp x + 1)"
proof -
  obtain p q where pq: "quotient_of x = (p, q)"
    by (cases "quotient_of x")
  then have q: "0 < q" and x: "x = of_int p / of_int q"
    by (rule quotient_of_denom_pos, rule quotient_of_div)
  from assms q have p: "0 < p"
    unfolding x by (simp add: zero_less_divide_iff)
  define a where "a = bitlen p"
  define b where "b = bitlen q"
  have a1: "1 \<le> a" and b1: "1 \<le> b"
    using p q by (auto simp: a_def b_def bitlen_alt_def)
  have pa: "(2::rat) powi (a - 1) \<le> of_int p" "of_int p < (2::rat) powi a"
  proof -
    from bitlen_bounds [OF p] have "2 ^ nat (a - 1) \<le> p" "p < 2 ^ nat a"
      by (simp_all add: a_def)
    then have "of_int (2 ^ nat (a - 1)) \<le> (of_int p :: rat)" "(of_int p :: rat) < of_int (2 ^ nat a)"
      by (simp_all only: of_int_le_iff of_int_less_iff)
    then show "(2::rat) powi (a - 1) \<le> of_int p" "of_int p < (2::rat) powi a"
      using a1 by (simp_all add: power_int_nonneg_exp)
  qed
  have qb: "(2::rat) powi (b - 1) \<le> of_int q" "of_int q < (2::rat) powi b"
  proof -
    from bitlen_bounds [OF q] have "2 ^ nat (b - 1) \<le> q" "q < 2 ^ nat b"
      by (simp_all add: b_def)
    then have "of_int (2 ^ nat (b - 1)) \<le> (of_int q :: rat)" "(of_int q :: rat) < of_int (2 ^ nat b)"
      by (simp_all only: of_int_le_iff of_int_less_iff)
    then show "(2::rat) powi (b - 1) \<le> of_int q" "of_int q < (2::rat) powi b"
      using b1 by (simp_all add: power_int_nonneg_exp)
  qed
  have pos: "(0::rat) < 2 powi n" for n :: int
    by (simp add: zero_less_power_int)
  have up: "x < 2 powi (a - b + 1)"
  proof -
    have "x < 2 powi a / 2 powi (b - 1)"
      unfolding x by (rule frac_less) (use pa qb p q pos in simp_all)
    also have "\<dots> = 2 powi (a - (b - 1))"
      by (simp add: power_int_diff)
    finally show ?thesis by (simp add: algebra_simps)
  qed
  have lo: "2 powi (a - b - 1) < x"
  proof -
    have "2 powi (a - 1) / 2 powi b < x"
      unfolding x by (rule frac_less2) (use pa qb p q pos in simp_all)
    moreover have "(2::rat) powi (a - 1) / 2 powi b = 2 powi (a - 1 - b)"
      by (simp add: power_int_diff)
    ultimately show ?thesis by (simp add: algebra_simps)
  qed
  have be: "binexp x = (if 2 powi (a - b) \<le> x then a - b else a - b - 1)"
    by (simp add: binexp_def pq a_def b_def Let_def)
  show ?thesis
  proof (cases "2 powi (a - b) \<le> x")
    case True
    with up show ?thesis by (simp add: be)
  next
    case False
    with lo show ?thesis by (simp add: be)
  qed
qed

lemma binexp_unique:
  assumes "0 < x" and "2 powi e \<le> x" and "x < 2 powi (e + 1)"
  shows "binexp x = e"
proof -
  note b = binexp_bounds [OF assms(1)]
  have "\<not> e + 1 \<le> binexp x"
  proof
    assume "e + 1 \<le> binexp x"
    then have "(2::rat) powi (e + 1) \<le> 2 powi binexp x"
      by (intro power_int_increasing) simp_all
    with b assms(3) show False by simp
  qed
  moreover have "\<not> binexp x + 1 \<le> e"
  proof
    assume "binexp x + 1 \<le> e"
    then have "(2::rat) powi (binexp x + 1) \<le> 2 powi e"
      by (intro power_int_increasing) simp_all
    with b assms(2) show False by simp
  qed
  ultimately show ?thesis by simp
qed

lemma round_double_at:
  assumes "0 < x" and "2 powi e \<le> x" and "x < 2 powi (e + 1)"
  shows "round_double x = of_int (rne (x / 2 powi (e - 52))) * 2 powi (e - 52)"
  using assms by (simp add: round_double_def binexp_unique [OF assms] Let_def)

lemma round_double_below_one:
  assumes "1 / 2 ^ (n + 1) \<le> x" and "x < 1 / 2 ^ n"
  shows "round_double x = of_int (rne (x * 2 ^ (n + 53))) / 2 ^ (n + 53)"
proof -
  have e: "- int (n + 1) + 1 = - int n" "- int (n + 1) - 52 = - int (n + 53)"
    by simp_all
  have p: "(2::rat) powi (- int (n + 1)) = 1 / 2 ^ (n + 1)"
    "(2::rat) powi (- int (n + 1) + 1) = 1 / 2 ^ n"
    "(2::rat) powi (- int (n + 1) - 52) = 1 / 2 ^ (n + 53)"
    unfolding e by (simp_all only: power_int_minus_divide power_int_of_nat)
  have "(0::rat) < 1 / 2 ^ (n + 1)" by simp
  then have x: "0 < x" using assms(1) by (rule less_le_trans)
  from round_double_at [OF x, of "- int (n + 1)"] assms show ?thesis
    unfolding p by simp
qed

lemma floor_rat_numeral:
  "\<lfloor>(numeral a :: rat) / numeral b\<rfloor> = numeral a div numeral b"
  using floor_divide_of_int_eq [of "numeral a" "numeral b", where ?'a = rat] by simp

lemma round_double_ranges:
  "1 / 2 \<le> x \<Longrightarrow> x < 1 \<Longrightarrow> round_double x = of_int (rne (x * 2 ^ 53)) / 2 ^ 53"
  "1 / 4 \<le> x \<Longrightarrow> x < 1 / 2 \<Longrightarrow> round_double x = of_int (rne (x * 2 ^ 54)) / 2 ^ 54"
  "1 / 8 \<le> x \<Longrightarrow> x < 1 / 4 \<Longrightarrow> round_double x = of_int (rne (x * 2 ^ 55)) / 2 ^ 55"
  "1 / 16 \<le> x \<Longrightarrow> x < 1 / 8 \<Longrightarrow> round_double x = of_int (rne (x * 2 ^ 56)) / 2 ^ 56"
  "1 / 32 \<le> x \<Longrightarrow> x < 1 / 16 \<Longrightarrow> round_double x = of_int (rne (x * 2 ^ 57)) / 2 ^ 57"
  "1 / 64 \<le> x \<Longrightarrow> x < 1 / 32 \<Longrightarrow> round_double x = of_int (rne (x * 2 ^ 58)) / 2 ^ 58"
  using round_double_below_one [of 0 x] round_double_below_one [of 1 x]
    round_double_below_one [of 2 x] round_double_below_one [of 3 x]
    round_double_below_one [of 4 x] round_double_below_one [of 5 x]
  by simp_all

lemma js_literals:
  "js_number (5 / 100) = 3602879701896397 / 72057594037927936"
  "js_number (2 / 100) = 5764607523034235 / 288230376151711744"
  "js_number (95 / 100) = 4278419646001971 / 4503599627370496"
  "js_number (33 / 100) = 5944751508129055 / 18014398509481984"
  "js_number (1 / 20) = 3602879701896397 / 72057594037927936"
  "js_number (1 / 50) = 5764607523034235 / 288230376151711744"
  "js_number (19 / 20) = 4278419646001971 / 4503599627370496"
  by (simp_all add: js_number_def round_double_ranges rne_def Let_def floor_rat_numeral)

lemma sweep_points_from_start: "sweep_points (js_number (5 / 100)) swept_ratios"
  unfolding swept_ratios_def
  by (simp add: js_literals fadd_def round_double_ranges rne_def Let_def floor_rat_numeral)

subsection \<open>The sweep of the optimizer\<close>

lemma findOptimal_loop_points:
  "sweep_points r rs \<Longrightarrow>
     findOptimal_loop Cd p r s = Some (foldl (record_point Cd p) s rs)"
proof (induction rs arbitrary: r s)
  case Nil
  then show ?case
    by (subst findOptimal_loop.simps) simp
next
  case (Cons x xs)
  then have "x = r" "r \<le> js_number (95 / 100)" "sweep_points (fadd r (js_number (2 / 100))) xs"
    by simp_all
  with Cons.IH [of "fadd r (js_number (2 / 100))" "record_point Cd p s r"] show ?case
    by (subst findOptimal_loop.simps) simp
qed

lemma findOptimal_eq:
  "findOptimal Cd p = Some (foldl (record_point Cd p)
     \<lparr> bestRatio = js_number (33 / 100), bestH = 0, data = [] \<rparr> swept_ratios)"
  unfolding findOptimal_def using sweep_points_from_start by (rule findOptimal_loop_points)

lemma data_record_point:
  "data (record_point Cd p s r) = data s @ [(r, maxH (runSimulation (of_rat r) Cd p))]"
  by (simp add: record_point_def Let_def)

lemma data_foldl:
  "data (foldl (record_point Cd p) s rs)
     = data s @ map (\<lambda>r. (r, maxH (runSimulation (of_rat r) Cd p))) rs"
  by (induction rs arbitrary: s) (simp_all add: data_record_point)

lemma tracks_best_record_point:
  assumes "tracks_best s"
  shows "tracks_best (record_point Cd p s r)"
proof -
  define m where "m = maxH (runSimulation (of_rat r) Cd p)"
  from assms have h0: "0 \<le> bestH s"
    and le: "\<forall>x \<in> set (data s). snd x \<le> bestH s"
    and dflt: "bestH s = 0 \<longrightarrow> bestRatio s = js_number (33 / 100)"
    and first: "0 < bestH s \<longrightarrow>
          (\<exists>i < length (data s). bestRatio s = fst (data s ! i) \<and> snd (data s ! i) = bestH s
             \<and> (\<forall>j < i. snd (data s ! j) < bestH s))"
    by (simp_all add: tracks_best_def)
  show ?thesis
  proof (cases "m > bestH s")
    case True
    then have rp: "record_point Cd p s r
        = s\<lparr> data := data s @ [(r, m)], bestH := m, bestRatio := r \<rparr>"
      by (simp add: record_point_def Let_def m_def)
    have "\<forall>j < length (data s). snd ((data s @ [(r, m)]) ! j) < m"
    proof (intro allI impI)
      fix j assume j: "j < length (data s)"
      then have "snd (data s ! j) \<le> bestH s"
        using le by simp
      with True j show "snd ((data s @ [(r, m)]) ! j) < m"
        by (simp add: nth_append)
    qed
    then have "\<exists>i < length (data s @ [(r, m)]). r = fst ((data s @ [(r, m)]) ! i)
         \<and> snd ((data s @ [(r, m)]) ! i) = m
         \<and> (\<forall>j < i. snd ((data s @ [(r, m)]) ! j) < m)"
      by (intro exI [of _ "length (data s)"]) simp
    moreover have "\<forall>x \<in> set (data s @ [(r, m)]). snd x \<le> m"
      using le True by auto
    ultimately show ?thesis
      unfolding rp tracks_best_def using True h0 by simp
  next
    case False
    then have rp: "record_point Cd p s r = s\<lparr> data := data s @ [(r, m)] \<rparr>"
      by (simp add: record_point_def Let_def m_def)
    have "\<exists>i < length (data s @ [(r, m)]). bestRatio s = fst ((data s @ [(r, m)]) ! i)
         \<and> snd ((data s @ [(r, m)]) ! i) = bestH s
         \<and> (\<forall>j < i. snd ((data s @ [(r, m)]) ! j) < bestH s)"
      if "0 < bestH s"
    proof -
      from first that obtain i where i: "i < length (data s)" "bestRatio s = fst (data s ! i)"
        "snd (data s ! i) = bestH s" "\<forall>j < i. snd (data s ! j) < bestH s"
        by blast
      then show ?thesis
        by (intro exI [of _ i]) (simp add: nth_append)
    qed
    moreover have "\<forall>x \<in> set (data s @ [(r, m)]). snd x \<le> bestH s"
      using le False by auto
    ultimately show ?thesis
      unfolding rp tracks_best_def using h0 dflt by simp
  qed
qed

lemma tracks_best_foldl:
  "tracks_best s \<Longrightarrow> tracks_best (foldl (record_point Cd p) s rs)"
  by (induction rs arbitrary: s) (simp_all add: tracks_best_record_point)

lemma tracks_best_initial:
  "tracks_best \<lparr> bestRatio = js_number (33 / 100), bestH = 0, data = [] \<rparr>"
  by (simp add: tracks_best_def)

lemma maxH_state_nonneg: "0 \<le> maxH (state_at f Cd p n)"
  by (induction n) (simp_all add: state_at_0 state_at_Suc maxH_loop_body initial_state_def
      Let_def le_max_iff_disj)

lemma maxH_nonneg: "0 \<le> maxH (runSimulation f Cd p)"
  by (simp add: result_of_run maxH_state_nonneg)

lemma length_swept_ratios: "length swept_ratios = 45"
  by (simp add: swept_ratios_def)

lemma best_is_Max:
  assumes "tracks_best s" and "data s \<noteq> []" and "\<forall>x \<in> set (data s). 0 \<le> snd x"
  shows "bestH s = Max (snd ` set (data s))"
proof -
  from assms(1) have le: "\<forall>x \<in> set (data s). snd x \<le> bestH s"
    and first: "0 < bestH s \<longrightarrow> (\<exists>i < length (data s). snd (data s ! i) = bestH s)"
    and h0: "0 \<le> bestH s"
    by (auto simp: tracks_best_def)
  have "bestH s \<in> snd ` set (data s)"
  proof (cases "0 < bestH s")
    case True
    with first obtain i where "i < length (data s)" "snd (data s ! i) = bestH s"
      by blast
    then show ?thesis
      by (metis image_eqI nth_mem)
  next
    case False
    with h0 have z: "bestH s = 0" by simp
    from assms(2) obtain x where x: "x \<in> set (data s)"
      by (cases "data s") auto
    with le assms(3) z have "snd x = 0"
      by (metis order_antisym)
    with x z show ?thesis
      by (metis image_eqI)
  qed
  then show ?thesis
    using le by (intro Max_eqI [symmetric]) auto
qed

lemma swept_ratios_in_range:
  "\<forall>r \<in> set swept_ratios. (0::real) \<le> of_rat r \<and> (of_rat r :: real) < 1"
  by (simp add: swept_ratios_def of_rat_divide)

lemma low_pressure_no_altitude:
  assumes "r \<in> set swept_ratios"
  shows "maxH (runSimulation (of_rat r) (2 / 5) (1 / 1000)) = 0"
proof -
  from assms swept_ratios_in_range have "(0::real) \<le> of_rat r" "(of_rat r :: real) < 1"
    by blast+
  then have "altitude (state_at (of_rat r) (2 / 5) (1 / 1000) (Suc 0)) < 0"
    by (intro low_pressure_first_step) simp_all
  then show ?thesis
    by (rule grounded_after_first_step)
qed

lemma findOptimal_low_pressure:
  "findOptimal (2 / 5) (1 / 1000) = Some \<lparr> bestRatio = js_number (33 / 100), bestH = 0,
     data = map (\<lambda>r. (r, 0)) swept_ratios \<rparr>"
proof -
  have "foldl (record_point (2 / 5) (1 / 1000)) s rs = s\<lparr> data := data s @ map (\<lambda>r. (r, 0)) rs \<rparr>"
    if "set rs \<subseteq> set swept_ratios" and "bestH s = 0" for s rs
    using that
  proof (induction rs arbitrary: s)
    case Nil
    show ?case by simp
  next
    case (Cons r rs)
    then have "maxH (runSimulation (of_rat r) (2 / 5) (1 / 1000)) = 0"
      by (intro low_pressure_no_altitude) simp
    with Cons.prems have "record_point (2 / 5) (1 / 1000) s r = s\<lparr> data := data s @ [(r, 0)] \<rparr>"
      by (simp add: record_point_def Let_def)
    with Cons show ?case by simp
  qed
  from this [of swept_ratios "\<lparr> bestRatio = js_number (33 / 100), bestH = 0, data = [] \<rparr>"]
  show ?thesis
    by (simp add: findOptimal_eq)
qed

text \<open>
  Claim C6 as stated fails. \<open>findOptimal(0.4, 0.001)\<close>: at a gauge pressure of 0.001 PSI
  the thrust stays far below the weight, no run leaves the ground, every sample has
  \<open>maxH = 0\<close> and \<open>bestH\<close> is 0. The first sample, at the ratio 0.05, attains that
  maximum, but \<open>bestRatio\<close> is 0.33 (the double the literal denotes).
\<close>

theorem first_maximum_counterexample:
  "bestH (the (findOptimal (2 / 5) (1 / 1000))) = 0
   \<and> hd (data (the (findOptimal (2 / 5) (1 / 1000)))) = (3602879701896397 / 72057594037927936, 0)
   \<and> bestRatio (the (findOptimal (2 / 5) (1 / 1000))) = 5944751508129055 / 18014398509481984"
  by (simp add: findOptimal_low_pressure js_literals swept_ratios_def)

text \<open>
  Claim C6, amended. For every drag coefficient and pressure \<open>findOptimal\<close> returns; its
  samples are the \<open>maxH\<close> of one run per value of the sweep; \<open>bestH\<close> is the maximum of
  the recorded \<open>maxH\<close>; when that maximum is positive, \<open>bestRatio\<close> is the ratio of the
  first sample that attains it (every earlier sample lies strictly below); when it is 0,
  \<open>bestRatio\<close> is the initial 0.33.
\<close>

theorem best_is_maximum:
  "\<exists>res. findOptimal Cd p = Some res
     \<and> data res = map (\<lambda>r. (r, maxH (runSimulation (of_rat r) Cd p))) swept_ratios
     \<and> bestH res = Max (snd ` set (data res))
     \<and> (0 < bestH res \<longrightarrow>
          (\<exists>i < length (data res). bestRatio res = fst (data res ! i)
             \<and> snd (data res ! i) = bestH res
             \<and> (\<forall>j < i. snd (data res ! j) < bestH res)))
     \<and> (bestH res = 0 \<longrightarrow> bestRatio res = js_number (33 / 100))"
proof -
  define res where "res = foldl (record_point Cd p)
     \<lparr> bestRatio = js_number (33 / 100), bestH = 0, data = [] \<rparr> swept_ratios"
  have r: "findOptimal Cd p = Some res"
    unfolding res_def by (rule findOptimal_eq)
  have d: "data res = map (\<lambda>r. (r, maxH (runSimulation (of_rat r) Cd p))) swept_ratios"
    unfolding res_def by (simp add: data_foldl)
  have t: "tracks_best res"
    unfolding res_def by (intro tracks_best_foldl tracks_best_initial)
  have ne: "data res \<noteq> []"
    unfolding d by (simp add: swept_ratios_def)
  have nn: "\<forall>x \<in> set (data res). 0 \<le> snd x"
    unfolding d by (auto simp: maxH_nonneg)
  have m: "bestH res = Max (snd ` set (data res))"
    using t ne nn by (rule best_is_Max)
  from t have "0 < bestH res \<longrightarrow>
          (\<exists>i < length (data res). bestRatio res = fst (data res ! i)
             \<and> snd (data res ! i) = bestH res
             \<and> (\<forall>j < i. snd (data res ! j) < bestH res))"
    and "bestH res = 0 \<longrightarrow> bestRatio res = js_number (33 / 100)"
    by (simp_all add: tracks_best_def)
  with r d m show ?thesis by blast
qed

theorem best_is_maximum_witness:
  "map_option bestH (findOptimal (2 / 5) (1 / 1000)) = Some 0
   \<and> map_option bestRatio (findOptimal (2 / 5) (1 / 1000)) = Some (js_number (33 / 100))"
proof -
  from best_is_maximum [of "2 / 5" "1 / 1000"] obtain res where
    r: "findOptimal (2 / 5) (1 / 1000) = Some res"
    and d: "data res = map (\<lambda>r. (r, maxH (runSimulation (of_rat r) (2 / 5) (1 / 1000)))) swept_ratios"
    and m: "bestH res = Max (snd ` set (data res))"
    and z: "bestH res = 0 \<longrightarrow> bestRatio res = js_number (33 / 100)"
    by blast
  have "data res = map (\<lambda>r. (r, 0)) swept_ratios"
    unfolding d by (simp add: low_pressure_no_altitude)
  then have "snd ` set (data res) = {0}"
    by (auto simp: swept_ratios_def image_iff)
  with m have "bestH res = 0" by simp
  with z r show ?thesis by simp
qed

text \<open>
  Claim C7 against the code. For every drag coefficient and pressure the sweep records
  45 samples, at the ratios \<open>swept_ratios\<close>: it starts at 0.05 and its last ratio is
  0.9300000000000005. The next value of the sweep variable, 0.9500000000000005, lies
  above the double 0.95 of the loop bound, so no sample is taken at 0.95.
\<close>

theorem sweep_misses_endpoint:
  "map_option (\<lambda>res. map fst (data res)) (findOptimal Cd p) = Some swept_ratios
   \<and> length swept_ratios = 45
   \<and> hd swept_ratios = js_number (5 / 100)
   \<and> last swept_ratios = 8376695306909127 / 9007199254740992
   \<and> js_number (95 / 100) = 4278419646001971 / 4503599627370496
   \<and> js_number (95 / 100) \<notin> set swept_ratios
   \<and> fadd (last swept_ratios) (js_number (2 / 100)) = 8556839292003947 / 9007199254740992
   \<and> js_number (95 / 100) < fadd (last swept_ratios) (js_number (2 / 100))"
proof -
  have a: "map_option (\<lambda>res. map fst (data res)) (findOptimal Cd p) = Some swept_ratios"
    by (simp add: findOptimal_eq data_foldl comp_def)
  have b: "hd swept_ratios = js_number (5 / 100)"
    "last swept_ratios = 8376695306909127 / 9007199254740992"
    "js_number (95 / 100) \<notin> set swept_ratios"
    by (simp_all add: swept_ratios_def js_literals)
  have c: "fadd (8376695306909127 / 9007199254740992) (js_number (2 / 100))
      = 8556839292003947 / 9007199254740992"
    by (simp add: js_literals fadd_def round_double_ranges rne_def Let_def floor_rat_numeral)
  have d: "js_number (95 / 100) < 8556839292003947 / 9007199254740992"
    by (simp add: js_literals)
  from a b c d length_swept_ratios js_literals(3) show ?thesis
    by (simp only: simp_thms)
qed

text \<open>
  Claim C10 as stated fails. \<open>findOptimal(0.4, 0.001)\<close>: every sample has \<open>maxH = 0\<close> and
  \<open>bestRatio\<close> is the default 0.33, and 0.33 is a point of the swept grid: the 15th
  sample is taken at exactly that ratio.
\<close>

theorem default_ratio_counterexample:
  "snd ` set (data (the (findOptimal (2 / 5) (1 / 1000)))) = {0}
   \<and> bestRatio (the (findOptimal (2 / 5) (1 / 1000))) = js_number (33 / 100)
   \<and> fst (data (the (findOptimal (2 / 5) (1 / 1000))) ! 14) = js_number (33 / 100)"
  by (simp add: findOptimal_low_pressure js_literals swept_ratios_def image_constant_conv)

text \<open>
  Claim C10, amended. When every sample has \<open>maxH = 0\<close>, the result has \<open>bestH = 0\<close> and
  \<open>bestRatio = 0.33\<close>, the default, which no pass of the loop assigned; that default is
  also the ratio of the 15th sample of every sweep. The \<open>maxH\<close> of a run is never
  negative.
\<close>

theorem all_zero_keeps_default:
  "\<exists>res. findOptimal Cd p = Some res
     \<and> ((\<forall>x \<in> set (data res). snd x = 0) \<longrightarrow>
          bestH res = 0 \<and> bestRatio res = js_number (33 / 100))
     \<and> fst (data res ! 14) = js_number (33 / 100)
     \<and> 0 \<le> maxH (runSimulation f Cd p)"
proof -
  define res where "res = foldl (record_point Cd p)
     \<lparr> bestRatio = js_number (33 / 100), bestH = 0, data = [] \<rparr> swept_ratios"
  have r: "findOptimal Cd p = Some res"
    unfolding res_def by (rule findOptimal_eq)
  have d: "data res = map (\<lambda>r. (r, maxH (runSimulation (of_rat r) Cd p))) swept_ratios"
    unfolding res_def by (simp add: data_foldl)
  have t: "tracks_best res"
    unfolding res_def by (intro tracks_best_foldl tracks_best_initial)
  have z: "bestH res = 0 \<and> bestRatio res = js_number (33 / 100)"
    if "\<forall>x \<in> set (data res). snd x = 0"
  proof -
    have "\<not> 0 < bestH res"
    proof
      assume "0 < bestH res"
      with t obtain i where "i < length (data res)" "snd (data res ! i) = bestH res"
        by (auto simp: tracks_best_def)
      with that \<open>0 < bestH res\<close> show False
        by (metis nth_mem less_irrefl)
    qed
    with t show ?thesis
      by (auto simp: tracks_best_def)
  qed
  have g: "fst (data res ! 14) = js_number (33 / 100)"
    unfolding d by (simp add: swept_ratios_def js_literals)
  from r z g maxH_nonneg [of f Cd p] show ?thesis by blast
qed

theorem all_zero_keeps_default_witness:
  "map_option bestH (findOptimal (2 / 5) (1 / 1000)) = Some 0
   \<and> map_option bestRatio (findOptimal (2 / 5) (1 / 1000)) = Some (js_number (33 / 100))
   \<and> 0 \<le> maxH (runSimulation (1 / 2) (2 / 5) (1 / 1000))"
proof -
  from all_zero_keeps_default [of "2 / 5" "1 / 1000" "1 / 2"] obtain res where
    r: "findOptimal (2 / 5) (1 / 1000) = Some res"
    and z: "(\<forall>x \<in> set (data res). snd x = 0) \<longrightarrow>
          bestH res = 0 \<and> bestRatio res = js_number (33 / 100)"
    and n: "0 \<le> maxH (runSimulation (1 / 2) (2 / 5) (1 / 1000))"
    by blast
  from r have "data res = map (\<lambda>r. (r, 0)) swept_ratios"
    by (auto simp: findOptimal_low_pressure)
  then have "\<forall>x \<in> set (data res). snd x = 0"
    by auto
  with z r n show ?thesis by simp
qed

end
